theory Spec2Isabelle
  imports Complex_Main
begin

section \<open>The document engine, as far as the manager and the utilities use it\<close>

text \<open>
  ProseMirror is an external library. A node is a text node, a leaf node or a node with
  content; \<open>nodeSize\<close> is the length of the text, 1 for a leaf, and the size of the
  content plus 2 (the opening and the closing token) otherwise.
\<close>

datatype pm_node =
    TextNode string
  | LeafNode string
  | BranchNode string "pm_node list"

fun nodeSize :: "pm_node \<Rightarrow> int" where
  "nodeSize (TextNode t) = int (length t)"
| "nodeSize (LeafNode n) = 1"
| "nodeSize (BranchNode n cs) = 2 + sum_list (map nodeSize cs)"

fun contentSize :: "pm_node \<Rightarrow> int" where
  "contentSize (TextNode t) = 0"
| "contentSize (LeafNode n) = 0"
| "contentSize (BranchNode n cs) = sum_list (map nodeSize cs)"

datatype error =
    MANAGER_PHASE_ERROR
  | NEW_EDITOR_MANAGER
  | TypeError
  | RangeError
  | UnrecognizedContent
  | OtherError string

text \<open>
  A JavaScript number is finite (a rational here, as every finite double is one), an
  infinity, or NaN. The comparisons \<open><\<close> and \<open><=\<close> are false as soon as one side is
  NaN.
\<close>

datatype js_number = Finite rat | Infinity | NegInfinity | NaN

fun js_less :: "js_number \<Rightarrow> js_number \<Rightarrow> bool" where
  "js_less NaN b = False"
| "js_less a NaN = False"
| "js_less (Finite a) (Finite b) = (a < b)"
| "js_less (Finite a) Infinity = True"
| "js_less (Finite a) NegInfinity = False"
| "js_less Infinity b = False"
| "js_less NegInfinity NegInfinity = False"
| "js_less NegInfinity b = True"

definition js_le :: "js_number \<Rightarrow> js_number \<Rightarrow> bool" where
  "js_le a b = (a \<noteq> NaN \<and> b \<noteq> NaN \<and> \<not> js_less b a)"

text \<open>
  \<open>doc.resolve(pos)\<close> throws a RangeError unless \<open>pos >= 0 && pos <= doc.content.size\<close>.
  It then walks down from the document: at each node \<open>content.findIndex\<close> gives the
  index of the child that holds the offset and the offset at which that child starts (or
  the offset itself when it falls on a boundary), and throws a RangeError for an offset
  outside the content; the walk ends on a boundary or at a text node, and otherwise goes
  on inside the child with the remaining offset less one.
\<close>

fun nodeContent :: "pm_node \<Rightarrow> pm_node list" where
  "nodeContent (TextNode t) = []"
| "nodeContent (LeafNode n) = []"
| "nodeContent (BranchNode n cs) = cs"

fun findIndexFrom :: "pm_node list \<Rightarrow> nat \<Rightarrow> rat \<Rightarrow> rat \<Rightarrow> error + nat \<times> rat" where
  "findIndexFrom [] i curPos pos = Inl RangeError"
| "findIndexFrom (c # cs) i curPos pos =
     (let end = curPos + of_int (nodeSize c)
      in if end \<ge> pos then (if end = pos then Inr (i + 1, end) else Inr (i, curPos))
         else findIndexFrom cs (i + 1) end pos)"

definition findIndex :: "pm_node list \<Rightarrow> rat \<Rightarrow> error + nat \<times> rat" where
  "findIndex cs pos =
     (if pos = 0 then Inr (0, pos)
      else if pos = of_int (sum_list (map nodeSize cs)) then Inr (length cs, pos)
      else if pos > of_int (sum_list (map nodeSize cs)) \<or> pos < 0 then Inl RangeError
      else findIndexFrom cs 0 0 pos)"

function resolvePath :: "pm_node \<Rightarrow> rat \<Rightarrow> error + unit" where
  "resolvePath node parentOffset =
     (case findIndex (nodeContent node) parentOffset of
        Inl e \<Rightarrow> Inl e
      | Inr (index, offset) \<Rightarrow>
          (if parentOffset - offset = 0 then Inr ()
           else if index < length (nodeContent node)
           then (case nodeContent node ! index of
                   TextNode t \<Rightarrow> Inr ()
                 | LeafNode n \<Rightarrow> resolvePath (LeafNode n) (parentOffset - offset - 1)
                 | BranchNode n cs \<Rightarrow>
                     resolvePath (BranchNode n cs) (parentOffset - offset - 1))
           else Inl RangeError))"
  by pat_completeness auto
termination
proof (relation "measure (\<lambda>(node, off). size node)")
  show "wf (measure (\<lambda>(node, off). size node))" by simp
next
  fix node :: pm_node and parentOffset y :: rat and x2 :: "nat \<times> rat" and x :: nat and n
  assume "x < length (nodeContent node)" and "nodeContent node ! x = LeafNode n"
  then have mem: "LeafNode n \<in> set (nodeContent node)" by (metis nth_mem)
  then have "size (LeafNode n) \<le> size_list size (nodeContent node)"
    by (rule size_list_estimation') simp
  with mem show "((LeafNode n, parentOffset - y - 1), node, parentOffset)
      \<in> measure (\<lambda>(node, off). size node)"
    by (cases node) auto
next
  fix node :: pm_node and parentOffset y :: rat and x2 :: "nat \<times> rat" and x :: nat and n cs
  assume "x < length (nodeContent node)" and "nodeContent node ! x = BranchNode n cs"
  then have mem: "BranchNode n cs \<in> set (nodeContent node)" by (metis nth_mem)
  then have "size (BranchNode n cs) \<le> size_list size (nodeContent node)"
    by (rule size_list_estimation') simp
  with mem show "((BranchNode n cs, parentOffset - y - 1), node, parentOffset)
      \<in> measure (\<lambda>(node, off). size node)"
    by (cases node) auto
qed

declare resolvePath.simps [simp del]

definition resolve :: "pm_node \<Rightarrow> js_number \<Rightarrow> error + rat" where
  "resolve d pos =
     (if \<not> (js_le (Finite 0) pos \<and> js_le pos (Finite (of_int (contentSize d))))
      then Inl RangeError
      else case pos of
             Finite p \<Rightarrow> (case resolvePath d p of Inl e \<Rightarrow> Inl e | Inr u \<Rightarrow> Inr p)
           | other \<Rightarrow> Inl RangeError)"

text \<open>
  Selections are kept symbolically, by the call of the engine that made them:
  \<open>TextSelection.create(doc, anchor, head)\<close>, \<open>TextSelection.near(doc.resolve(pos))\<close>
  and \<open>Selection.atStart(doc)\<close>, the selection of a freshly created state. Each one
  carries the document it points into.
\<close>

datatype selection =
    TextSelection pm_node rat rat
  | NearSelection pm_node rat
  | AtStartSelection pm_node

fun selectionDoc :: "selection \<Rightarrow> pm_node" where
  "selectionDoc (TextSelection d a h) = d"
| "selectionDoc (NearSelection d p) = d"
| "selectionDoc (AtStartSelection d) = d"

definition TextSelection_create :: "pm_node \<Rightarrow> js_number \<Rightarrow> js_number \<Rightarrow> error + selection" where
  "TextSelection_create d a h =
     (case resolve d a of
        Inl e \<Rightarrow> Inl e
      | Inr a' \<Rightarrow> (case resolve d h of Inl e \<Rightarrow> Inl e | Inr h' \<Rightarrow> Inr (TextSelection d a' h')))"

record plugin =
  pluginKey :: string
  pluginStateHasDestroy :: bool

record editor_state =
  doc :: pm_node
  selection :: selection
  plugins :: "plugin list"

definition EditorState_create :: "pm_node \<Rightarrow> plugin list \<Rightarrow> editor_state" where
  "EditorState_create d ps = \<lparr> doc = d, selection = AtStartSelection d, plugins = ps \<rparr>"

text \<open>
  \<open>state.applyTransaction(state.tr.setSelection(sel)).state\<close>: \<open>setSelection\<close> throws
  a RangeError when the selection points into another document; the transaction changes
  the selection only.
\<close>

definition setSelection :: "selection \<Rightarrow> editor_state \<Rightarrow> error + editor_state" where
  "setSelection sel st =
     (if selectionDoc sel = doc st then Inr (st\<lparr> selection := sel \<rparr>) else Inl RangeError)"

record editor_view =
  viewId :: nat
  state :: editor_state
  destroyCalls :: nat

section \<open>The manager\<close>

text \<open>
  Modelled from the spec: the enum \<open>ManagerPhase\<close> of \<open>@remirror/core-constants\<close> is
  not among the sources. The spec gives it as the strictly increasing enum
  None, Create, EditorView, Runtime, Destroy; the code compares its members with
  \<open><=\<close> and \<open>>=\<close>, which \<open>phaseValue\<close> makes explicit.
\<close>

datatype ManagerPhase = NonePhase | Create | EditorView | Runtime | Destroy

fun phaseValue :: "ManagerPhase \<Rightarrow> nat" where
  "phaseValue NonePhase = 0"
| "phaseValue Create = 1"
| "phaseValue EditorView = 2"
| "phaseValue Runtime = 3"
| "phaseValue Destroy = 4"

datatype store_value =
    StateValue editor_state
  | NamesValue "string list"
  | MethodValue string
  | CustomValue string

text \<open>
  A lifecycle handler is a method of an extension. Of its body the model keeps the calls
  it makes to \<open>this.store.setExtensionStore\<close>, in order; whatever else it does happens
  outside the manager.
\<close>

record handler =
  owner :: string
  calls :: "(string \<times> store_value) list"

record handlers =
  createHandlers :: "handler list"
  viewHandlers :: "handler list"
  updateHandlers :: "handler list"
  destroyHandlers :: "handler list"

record update_parameter =
  previousState :: editor_state
  newState :: editor_state
  firstUpdate :: bool

text \<open>
  What the manager does to the outside is recorded as a trace: the handlers it invokes
  (an \<open>onStateUpdate\<close> handler with its parameter and with the snapshots it can read
  from the extension store at that moment), the \<open>destroy\<close> calls on plugin states and on
  the view, and the events it emits.
\<close>

datatype event =
    OnCreate string
  | OnView string nat
  | OnStateUpdate string update_parameter "store_value option" "store_value option"
  | OnDestroy string
  | PluginStateDestroy string
  | ViewDestroy nat
  | EmitStateUpdate update_parameter
  | EmitDestroy

datatype extension_kind = NodeExtension | MarkExtension | PlainExtension

record extension =
  name :: string
  kind :: extension_kind
  createHandler :: "(string \<times> store_value) list option"
  viewHandler :: "(string \<times> store_value) list option"
  stateUpdateHandler :: "(string \<times> store_value) list option"
  destroyHandler :: "(string \<times> store_value) list option"

record manager =
  extensions :: "extension list"
  phase :: ManagerPhase
  firstStateUpdate :: bool
  extensionStore :: "string \<rightharpoonup> store_value"
  storeView :: "editor_view option"
  managerHandlers :: handlers
  trace :: "event list"

type_synonym 'a outcome = "(error + 'a) \<times> manager"

text \<open>
  \<open>createExtensionStore\<close> defines \<open>extensions\<close>, \<open>phase\<close>, \<open>view\<close> and
  \<open>managerSettings\<close> with a getter only, and \<open>getState\<close>, \<open>updateState\<close> and
  \<open>isMounted\<close> as data properties that are not writable; an assignment to one of them
  throws a TypeError in the strict mode of a class body. The three methods assigned
  afterwards are ordinary properties.
\<close>

definition readonlyKeys :: "string list" where
  "readonlyKeys =
     [''extensions'', ''phase'', ''view'', ''managerSettings'',
      ''getState'', ''updateState'', ''isMounted'']"

definition createExtensionStore :: "string \<rightharpoonup> store_value" where
  "createExtensionStore =
     [''getStoreKey'' \<mapsto> MethodValue ''getStoreKey'',
      ''setStoreKey'' \<mapsto> MethodValue ''setStoreKey'',
      ''setExtensionStore'' \<mapsto> MethodValue ''setExtensionStore'']"

definition setExtensionStore :: "string \<Rightarrow> store_value \<Rightarrow> manager \<Rightarrow> unit outcome" where
  "setExtensionStore key val s =
     (if \<not> phaseValue (phase s) \<le> phaseValue Create then (Inl MANAGER_PHASE_ERROR, s)
      else if key \<in> set readonlyKeys then (Inl TypeError, s)
      else (Inr (), s\<lparr> extensionStore := (extensionStore s)(key \<mapsto> val) \<rparr>))"

definition getState :: "manager \<Rightarrow> error + editor_state" where
  "getState s =
     (if \<not> phaseValue (phase s) \<ge> phaseValue EditorView then Inl MANAGER_PHASE_ERROR
      else (case storeView s of None \<Rightarrow> Inl TypeError | Some v \<Rightarrow> Inr (state v)))"

text \<open>The body of a handler: its calls run in order, the first one that throws ends it.\<close>

fun runCalls :: "(string \<times> store_value) list \<Rightarrow> manager \<Rightarrow> unit outcome" where
  "runCalls [] s = (Inr (), s)"
| "runCalls (c # cs) s =
     (case setExtensionStore (fst c) (snd c) s of
        (Inl e, s') \<Rightarrow> (Inl e, s')
      | (Inr u, s') \<Rightarrow> runCalls cs s')"

text \<open>
  \<open>for (const handler of handlers) handler(arg)\<close>: each invocation is recorded, with
  the event \<open>ev\<close> makes of the handler and the manager at that moment, and then the
  body runs; an exception leaves the loop.
\<close>

fun fire :: "(handler \<Rightarrow> manager \<Rightarrow> event) \<Rightarrow> handler list \<Rightarrow> manager \<Rightarrow> unit outcome" where
  "fire ev [] s = (Inr (), s)"
| "fire ev (h # hs) s =
     (case runCalls (calls h) (s\<lparr> trace := trace s @ [ev h s] \<rparr>) of
        (Inl e, s') \<Rightarrow> (Inl e, s')
      | (Inr u, s') \<Rightarrow> fire ev hs s')"

definition addView :: "editor_view \<Rightarrow> manager \<Rightarrow> unit outcome" where
  "addView view s =
     (if phaseValue (phase s) \<ge> phaseValue EditorView then (Inr (), s)
      else fire (\<lambda>h m. OnView (owner h) (viewId view)) (viewHandlers (managerHandlers s))
             (s\<lparr> firstStateUpdate := True, phase := EditorView, storeView := Some view \<rparr>))"

definition onStateUpdateEvent :: "update_parameter \<Rightarrow> handler \<Rightarrow> manager \<Rightarrow> event" where
  "onStateUpdateEvent p h m =
     OnStateUpdate (owner h) p (extensionStore m ''currentState'')
       (extensionStore m ''previousState'')"

definition onStateUpdate :: "editor_state \<Rightarrow> editor_state \<Rightarrow> manager \<Rightarrow> unit outcome" where
  "onStateUpdate prev st s =
     (let first = firstStateUpdate s;
          s1 = s\<lparr> extensionStore :=
                   (extensionStore s)(''currentState'' \<mapsto> StateValue st,
                                      ''previousState'' \<mapsto> StateValue prev) \<rparr>;
          s2 = (if firstStateUpdate s1
                then s1\<lparr> phase := Runtime, firstStateUpdate := False \<rparr> else s1);
          parameterWithUpdate = \<lparr> previousState = prev, newState = st, firstUpdate = first \<rparr>
      in case fire (onStateUpdateEvent parameterWithUpdate)
                (updateHandlers (managerHandlers s2)) s2 of
           (Inl e, s3) \<Rightarrow> (Inl e, s3)
         | (Inr u, s3) \<Rightarrow>
             (Inr (), s3\<lparr> trace := trace s3 @ [EmitStateUpdate parameterWithUpdate] \<rparr>))"

definition updateState :: "editor_state \<Rightarrow> manager \<Rightarrow> unit outcome" where
  "updateState st s =
     (case getState s of
        Inl e \<Rightarrow> (Inl e, s)
      | Inr prev \<Rightarrow>
          onStateUpdate prev st
            (s\<lparr> storeView := map_option (\<lambda>v. v\<lparr> state := st \<rparr>) (storeView s) \<rparr>))"

definition pluginStateDestroys :: "editor_view option \<Rightarrow> event list" where
  "pluginStateDestroys vo =
     (case vo of
        None \<Rightarrow> []
      | Some v \<Rightarrow>
          map (\<lambda>p. PluginStateDestroy (pluginKey p))
            (filter pluginStateHasDestroy (plugins (state v))))"

definition viewDestroy :: "manager \<Rightarrow> manager" where
  "viewDestroy s =
     (case storeView s of
        None \<Rightarrow> s
      | Some v \<Rightarrow>
          s\<lparr> storeView := Some (v\<lparr> destroyCalls := Suc (destroyCalls v) \<rparr>),
             trace := trace s @ [ViewDestroy (viewId v)] \<rparr>)"

definition destroy :: "manager \<Rightarrow> unit outcome" where
  "destroy s =
     (let s1 = s\<lparr> phase := Destroy \<rparr>;
          s2 = s1\<lparr> trace := trace s1 @ pluginStateDestroys (storeView s1) \<rparr>
      in case fire (\<lambda>h m. OnDestroy (owner h)) (destroyHandlers (managerHandlers s2)) s2 of
           (Inl e, s3) \<Rightarrow> (Inl e, s3)
         | (Inr u, s3) \<Rightarrow>
             (let s4 = viewDestroy s3 in (Inr (), s4\<lparr> trace := trace s4 @ [EmitDestroy] \<rparr>)))"

definition destroyed :: "manager \<Rightarrow> bool" where
  "destroyed s = (phase s = Destroy)"

definition mounted :: "manager \<Rightarrow> bool" where
  "mounted s =
     (phaseValue (phase s) \<ge> phaseValue EditorView \<and> phaseValue (phase s) < phaseValue Destroy)"

text \<open>
  \<open>setupLifecycleHandlers\<close> walks the extensions in order, binds the handlers an
  extension defines and collects the names by kind.
\<close>

definition bindHandler :: "extension \<Rightarrow> (string \<times> store_value) list option \<Rightarrow> handler list" where
  "bindHandler e body =
     (case body of None \<Rightarrow> [] | Some cs \<Rightarrow> [\<lparr> owner = name e, calls = cs \<rparr>])"

definition namesOfKind :: "extension_kind \<Rightarrow> extension list \<Rightarrow> string list" where
  "namesOfKind k es = map name (filter (\<lambda>e. kind e = k) es)"

definition setupLifecycleHandlers :: "manager \<Rightarrow> manager" where
  "setupLifecycleHandlers s =
     s\<lparr> extensionStore :=
          (extensionStore s)
            (''nodeNames'' \<mapsto> NamesValue (namesOfKind NodeExtension (extensions s)),
             ''markNames'' \<mapsto> NamesValue (namesOfKind MarkExtension (extensions s)),
             ''plainNames'' \<mapsto> NamesValue (namesOfKind PlainExtension (extensions s))),
        managerHandlers :=
          \<lparr> createHandlers = concat (map (\<lambda>e. bindHandler e (createHandler e)) (extensions s)),
            viewHandlers = concat (map (\<lambda>e. bindHandler e (viewHandler e)) (extensions s)),
            updateHandlers =
              concat (map (\<lambda>e. bindHandler e (stateUpdateHandler e)) (extensions s)),
            destroyHandlers =
              concat (map (\<lambda>e. bindHandler e (destroyHandler e)) (extensions s)) \<rparr> \<rparr>"

text \<open>
  The constructor. \<open>settings.privacy\<close> is an optional symbol. The function
  \<open>transformCombinedUnion\<close> of \<open>remirror-manager-helpers\<close> is not among the sources: it
  is the parameter \<open>transform\<close>, which returns the resolved extensions or throws. A
  constructor that throws yields no manager.
\<close>

datatype symbol = privacySymbol | OtherSymbol nat

definition RemirrorManager_constructor ::
  "('c list \<Rightarrow> error + extension list) \<Rightarrow> 'c list \<Rightarrow> symbol option \<Rightarrow> error + manager" where
  "RemirrorManager_constructor transform combined privacy =
     (if privacy \<noteq> Some privacySymbol then Inl NEW_EDITOR_MANAGER
      else case transform combined of
        Inl e \<Rightarrow> Inl e
      | Inr exts \<Rightarrow>
          (let s0 = \<lparr> extensions = exts, phase = NonePhase, firstStateUpdate = True,
                      extensionStore = createExtensionStore, storeView = None,
                      managerHandlers = \<lparr> createHandlers = [], viewHandlers = [],
                                          updateHandlers = [], destroyHandlers = [] \<rparr>,
                      trace = [] \<rparr>;
               s1 = setupLifecycleHandlers s0;
               s2 = s1\<lparr> phase := Create \<rparr>
           in case fire (\<lambda>h m. OnCreate (owner h)) (createHandlers (managerHandlers s2)) s2 of
                (Inl e, s3) \<Rightarrow> Inl e
              | (Inr u, s3) \<Rightarrow> Inr s3))"

text \<open>
  The static \<open>create\<close>: the combined units, then the built-in preset (\<open>builtin\<close>,
  whose class is not among the sources), with the privacy symbol.
\<close>

definition RemirrorManager_create ::
  "('c list \<Rightarrow> error + extension list) \<Rightarrow> 'c \<Rightarrow> 'c list \<Rightarrow> error + manager" where
  "RemirrorManager_create transform builtin combined =
     RemirrorManager_constructor transform (combined @ [builtin]) (Some privacySymbol)"

section \<open>Creating a document and a state\<close>

text \<open>
  Modelled from the spec: \<open>clamp\<close> of \<open>@remirror/core-helpers\<close> is not among the
  sources; it is described as clamping a value into the range from \<open>min\<close> to \<open>max\<close>,
  by comparing the value with the two bounds. NaN compares false with both and comes
  back as it is.
\<close>

definition clamp :: "js_number \<Rightarrow> js_number \<Rightarrow> js_number \<Rightarrow> js_number" where
  "clamp minV maxV v = (if js_less v minV then minV else if js_less maxV v then maxV else v)"

definition TextSelection_near :: "pm_node \<Rightarrow> js_number \<Rightarrow> error + selection" where
  "TextSelection_near d pos =
     (case resolve d pos of Inl e \<Rightarrow> Inl e | Inr p \<Rightarrow> Inr (NearSelection d p))"

datatype primitive_selection =
    PSelection selection
  | PStart
  | PEnd
  | PNumber js_number
  | PFromTo js_number js_number

definition getTextSelection :: "primitive_selection \<Rightarrow> pm_node \<Rightarrow> error + selection" where
  "getTextSelection sel d =
     (let maxPos = Finite (of_int (nodeSize d - 2));
          minPos = Finite 0;
          clampToDocument = (\<lambda>v. clamp minPos maxPos v)
      in case sel of
           PSelection s \<Rightarrow> Inr s
         | PStart \<Rightarrow> TextSelection_near d (clampToDocument minPos)
         | PEnd \<Rightarrow> TextSelection_near d (clampToDocument maxPos)
         | PNumber n \<Rightarrow> TextSelection_near d (clampToDocument n)
         | PFromTo f t \<Rightarrow> TextSelection_create d (clampToDocument f) (clampToDocument t))"

text \<open>
  A JSON value of a node: its \<open>type\<close>, its \<open>content\<close> when that is an array, its
  \<open>text\<close>.
\<close>

datatype json = JSON (jsonType: string) (jsonContent: "json list option") (jsonText: "string option")

datatype fallback = FallbackJSON json | FallbackNode pm_node

datatype on_error = FallbackValue fallback | FallbackFunction "error option \<Rightarrow> fallback"

datatype content_type =
    NodeContent pm_node
  | JSONContent json
  | StringContent string
  | OtherContent

text \<open>
  Of the schema, the functions use \<open>schema.nodeFromJSON\<close>, which throws on JSON the
  schema does not know, and \<open>schema.nodes.doc.spec.content\<close>.
\<close>

record schema =
  nodeFromJSON :: "json \<Rightarrow> error + pm_node"
  docSpecContent :: "string option"

text \<open>
  Modelled from the spec: the constants \<open>EMPTY_PARAGRAPH_NODE\<close> and \<open>EMPTY_NODE\<close> of
  \<open>@remirror/core-constants\<close> are not among the sources; they are the JSON of a document
  with one empty paragraph and of a document with no content.
\<close>

definition EMPTY_PARAGRAPH_NODE :: json where
  "EMPTY_PARAGRAPH_NODE = JSON ''doc'' (Some [JSON ''paragraph'' None None]) None"

definition EMPTY_NODE :: json where
  "EMPTY_NODE = JSON ''doc'' (Some []) None"

definition isRemirrorJSON :: "json \<Rightarrow> bool" where
  "isRemirrorJSON j = (jsonType j = ''doc'' \<and> jsonContent j \<noteq> None)"

definition startsWith :: "string \<Rightarrow> string \<Rightarrow> bool" where
  "startsWith s p = (take (length p) s = p)"

definition createFallback :: "fallback \<Rightarrow> schema \<Rightarrow> error + pm_node" where
  "createFallback fb sch =
     (case fb of FallbackNode n \<Rightarrow> Inr n | FallbackJSON j \<Rightarrow> nodeFromJSON sch j)"

definition createDocumentErrorHandler :: "on_error \<Rightarrow> schema \<Rightarrow> error option \<Rightarrow> error + pm_node" where
  "createDocumentErrorHandler onError sch err =
     (case onError of
        FallbackFunction f \<Rightarrow> createFallback (f err) sch
      | FallbackValue fb \<Rightarrow> createFallback fb sch)"

text \<open>
  In \<open>createDocumentNode\<close> the local \<open>onError\<close> is
  \<open>parameter.onError ?? startsWith('block') ? () => EMPTY_PARAGRAPH_NODE : () => EMPTY_NODE\<close>.
  The operator \<open>??\<close> binds tighter than the conditional, so the test of the conditional
  is \<open>parameter.onError ?? startsWith('block')\<close>: a given \<open>onError\<close>, an object or a
  function, is truthy; without one the test is the \<open>startsWith\<close>, undefined (falsy)
  when the doc spec has no content.
\<close>

definition createDocumentNode ::
  "content_type \<Rightarrow> schema \<Rightarrow> (string \<Rightarrow> error + pm_node) option \<Rightarrow> on_error option
     \<Rightarrow> error + pm_node" where
  "createDocumentNode content sch stringHandler onErrorParameter =
     (let test =
            (case onErrorParameter of
               Some given \<Rightarrow> True
             | None \<Rightarrow>
                 (case docSpecContent sch of None \<Rightarrow> False | Some c \<Rightarrow> startsWith c ''block''));
          onError =
            (if test then FallbackFunction (\<lambda>e. FallbackJSON EMPTY_PARAGRAPH_NODE)
             else FallbackFunction (\<lambda>e. FallbackJSON EMPTY_NODE))
      in case content of
           NodeContent n \<Rightarrow> Inr n
         | JSONContent j \<Rightarrow>
             (if isRemirrorJSON j
              then (case nodeFromJSON sch j of
                      Inr n \<Rightarrow> Inr n
                    | Inl e \<Rightarrow> createDocumentErrorHandler onError sch (Some e))
              else createDocumentErrorHandler onError sch (Some UnrecognizedContent))
         | StringContent str \<Rightarrow>
             (case stringHandler of
                Some f \<Rightarrow> f str
              | None \<Rightarrow> createDocumentErrorHandler onError sch (Some UnrecognizedContent))
         | OtherContent \<Rightarrow> createDocumentErrorHandler onError sch (Some UnrecognizedContent))"

text \<open>
  \<open>createState\<close> reads \<open>schema\<close> and \<open>plugins\<close> from the manager store; here they are
  arguments. \<open>!selection\<close> holds for a missing selection and for the numbers 0 and NaN.
\<close>

definition createState ::
  "schema \<Rightarrow> plugin list \<Rightarrow> content_type \<Rightarrow> (string \<Rightarrow> error + pm_node) option
     \<Rightarrow> on_error option \<Rightarrow> primitive_selection option \<Rightarrow> error + editor_state" where
  "createState sch ps content stringHandler onError sel =
     (case createDocumentNode content sch stringHandler onError of
        Inl e \<Rightarrow> Inl e
      | Inr d \<Rightarrow>
          (let st = EditorState_create d ps
           in case sel of
                None \<Rightarrow> Inr st
              | Some p \<Rightarrow>
                  (if p = PNumber (Finite 0) \<or> p = PNumber NaN then Inr st
                   else case getTextSelection p (doc st) of
                          Inl e \<Rightarrow> Inl e
                        | Inr textSel \<Rightarrow> setSelection textSel st)))"

section \<open>Sequences of state updates, and what they are expected to leave in the trace\<close>

text \<open>
  The view layer delivers state updates one after the other, each with the previous and
  the new state; an exception ends the sequence.
\<close>

fun deliverUpdates :: "(editor_state \<times> editor_state) list \<Rightarrow> manager \<Rightarrow> unit outcome" where
  "deliverUpdates [] s = (Inr (), s)"
| "deliverUpdates (u # us) s =
     (case onStateUpdate (fst u) (snd u) s of
        (Inl e, s') \<Rightarrow> (Inl e, s')
      | (Inr x, s') \<Rightarrow> deliverUpdates us s')"

text \<open>
  One round: every handler of the list, in its order, with the parameter of the update and
  with the new and the previous state already readable from the extension store, then the
  \<open>stateUpdate\<close> event. Of a sequence of rounds only the first carries \<open>first\<close>.
\<close>

definition updateRound :: "handler list \<Rightarrow> bool \<Rightarrow> editor_state \<times> editor_state \<Rightarrow> event list" where
  "updateRound hs first u =
     (let p = \<lparr> previousState = fst u, newState = snd u, firstUpdate = first \<rparr>
      in map (\<lambda>h. OnStateUpdate (owner h) p (Some (StateValue (snd u)))
                     (Some (StateValue (fst u)))) hs
         @ [EmitStateUpdate p])"

fun updateRounds :: "handler list \<Rightarrow> bool \<Rightarrow> (editor_state \<times> editor_state) list \<Rightarrow> event list" where
  "updateRounds hs first [] = []"
| "updateRounds hs first (u # us) = updateRound hs first u @ updateRounds hs False us"

text \<open>The \<open>firstUpdate\<close> flags the handler of one extension received, in order.\<close>

fun firstUpdateFlags :: "string \<Rightarrow> event list \<Rightarrow> bool list" where
  "firstUpdateFlags n [] = []"
| "firstUpdateFlags n (OnStateUpdate m p c q # es) =
     (if m = n then firstUpdate p # firstUpdateFlags n es else firstUpdateFlags n es)"
| "firstUpdateFlags n (e # es) = firstUpdateFlags n es"

text \<open>
  A selection lies within its document when its positions are positions of it; for
  \<open>TextSelection.near\<close> that is the resolved position the engine searches from.
\<close>

fun withinDocument :: "selection \<Rightarrow> bool" where
  "withinDocument (TextSelection d a h) =
     (0 \<le> a \<and> a \<le> of_int (nodeSize d - 2) \<and> 0 \<le> h \<and> h \<le> of_int (nodeSize d - 2))"
| "withinDocument (NearSelection d p) = (0 \<le> p \<and> p \<le> of_int (nodeSize d - 2))"
| "withinDocument (AtStartSelection d) = True"

text \<open>
  Positions of the engine are integers. A number stands for a position when it is an
  integer or an infinity; a primitive selection is positional when it is \<open>'start'\<close>,
  \<open>'end'\<close>, such a number, or a from-to pair of such numbers.
\<close>

fun positionNumber :: "js_number \<Rightarrow> bool" where
  "positionNumber (Finite p) = (p = of_int \<lfloor>p\<rfloor>)"
| "positionNumber Infinity = True"
| "positionNumber NegInfinity = True"
| "positionNumber NaN = False"

fun positionSelection :: "primitive_selection \<Rightarrow> bool" where
  "positionSelection (PSelection s) = False"
| "positionSelection PStart = True"
| "positionSelection PEnd = True"
| "positionSelection (PNumber n) = positionNumber n"
| "positionSelection (PFromTo f t) = (positionNumber f \<and> positionNumber t)"

section \<open>A concrete editor\<close>

definition paragraphExtension :: extension where
  "paragraphExtension =
     \<lparr> name = ''paragraph'', kind = NodeExtension, createHandler = None,
       viewHandler = Some [], stateUpdateHandler = Some [], destroyHandler = Some [] \<rparr>"

definition boldExtension :: extension where
  "boldExtension =
     \<lparr> name = ''bold'', kind = MarkExtension,
       createHandler = Some [(''boldCommands'', CustomValue ''toggleBold'')],
       viewHandler = Some [], stateUpdateHandler = Some [], destroyHandler = Some [] \<rparr>"

definition docExtension :: extension where
  "docExtension =
     \<lparr> name = ''doc'', kind = NodeExtension, createHandler = None,
       viewHandler = None, stateUpdateHandler = None, destroyHandler = None \<rparr>"

definition exampleTransform :: "extension list \<Rightarrow> error + extension list" where
  "exampleTransform combined = Inr combined"

definition exampleManager :: manager where
  "exampleManager =
     \<lparr> extensions = [paragraphExtension, boldExtension, docExtension],
       phase = Create,
       firstStateUpdate = True,
       extensionStore =
         createExtensionStore
           (''nodeNames'' \<mapsto> NamesValue [''paragraph'', ''doc''],
            ''markNames'' \<mapsto> NamesValue [''bold''],
            ''plainNames'' \<mapsto> NamesValue [],
            ''boldCommands'' \<mapsto> CustomValue ''toggleBold''),
       storeView = None,
       managerHandlers =
         \<lparr> createHandlers =
             [\<lparr> owner = ''bold'', calls = [(''boldCommands'', CustomValue ''toggleBold'')] \<rparr>],
           viewHandlers =
             [\<lparr> owner = ''paragraph'', calls = [] \<rparr>, \<lparr> owner = ''bold'', calls = [] \<rparr>],
           updateHandlers =
             [\<lparr> owner = ''paragraph'', calls = [] \<rparr>, \<lparr> owner = ''bold'', calls = [] \<rparr>],
           destroyHandlers =
             [\<lparr> owner = ''paragraph'', calls = [] \<rparr>, \<lparr> owner = ''bold'', calls = [] \<rparr>] \<rparr>,
       trace = [OnCreate ''bold''] \<rparr>"

text \<open>The same manager with an extension whose \<open>onView\<close> writes to the extension store.\<close>

definition intrusiveManager :: manager where
  "intrusiveManager =
     exampleManager
       \<lparr> managerHandlers :=
           (managerHandlers exampleManager)
             \<lparr> viewHandlers :=
                 [\<lparr> owner = ''paragraph'', calls = [] \<rparr>,
                  \<lparr> owner = ''bold'', calls = [(''boldState'', CustomValue ''active'')] \<rparr>] \<rparr> \<rparr>"

definition exampleDoc :: pm_node where
  "exampleDoc = BranchNode ''doc'' [BranchNode ''paragraph'' [TextNode ''hello'']]"

definition otherDoc :: pm_node where
  "otherDoc = BranchNode ''doc'' [BranchNode ''paragraph'' [TextNode ''fallback'']]"

definition historyPlugin :: plugin where
  "historyPlugin = \<lparr> pluginKey = ''history'', pluginStateHasDestroy = True \<rparr>"

definition exampleState :: editor_state where
  "exampleState = EditorState_create exampleDoc [historyPlugin]"

definition otherState :: editor_state where
  "otherState = EditorState_create otherDoc [historyPlugin]"

definition exampleView :: editor_view where
  "exampleView = \<lparr> viewId = 1, state = exampleState, destroyCalls = 0 \<rparr>"

definition otherView :: editor_view where
  "otherView = \<lparr> viewId = 2, state = otherState, destroyCalls = 0 \<rparr>"

text \<open>A schema that knows every node type: its \<open>nodeFromJSON\<close> never throws.\<close>

fun jsonToNode :: "json \<Rightarrow> pm_node" where
  "jsonToNode (JSON t c txt) =
     (case txt of
        Some str \<Rightarrow> TextNode str
      | None \<Rightarrow> BranchNode t (case c of None \<Rightarrow> [] | Some js \<Rightarrow> map jsonToNode js))"

definition exampleSchema :: schema where
  "exampleSchema = \<lparr> nodeFromJSON = (\<lambda>j. Inr (jsonToNode j)), docSpecContent = Some ''block+'' \<rparr>"

section \<open>How handlers run\<close>


lemma setExtensionStore_late:
  "phaseValue Create < phaseValue (phase s) \<Longrightarrow> setExtensionStore k v s = (Inl MANAGER_PHASE_ERROR, s)"
  by (simp add: setExtensionStore_def)

lemma setExtensionStore_preserves:
  assumes "\<And>m es. f (m\<lparr> extensionStore := es \<rparr>) = f m"
  shows "f (snd (setExtensionStore k v s)) = f s"
  using assms by (simp add: setExtensionStore_def)

lemma runCalls_preserves:
  assumes "\<And>m es. f (m\<lparr> extensionStore := es \<rparr>) = f m"
  shows "f (snd (runCalls cs s)) = f s"
proof (induction cs arbitrary: s)
  case Nil
  show ?case by simp
next
  case (Cons c cs)
  obtain r s1 where r: "setExtensionStore (fst c) (snd c) s = (r, s1)"
    by (cases "setExtensionStore (fst c) (snd c) s")
  have s1: "f s1 = f s"
    using setExtensionStore_preserves[of f "fst c" "snd c" s, OF assms] r by simp
  show ?case
  proof (cases r)
    case (Inl e)
    then show ?thesis using r s1 by simp
  next
    case (Inr u)
    then show ?thesis using r s1 Cons.IH[of s1] by simp
  qed
qed

lemma fire_preserves:
  assumes "\<And>m es. f (m\<lparr> extensionStore := es \<rparr>) = f m"
    and "\<And>m t. f (m\<lparr> trace := t \<rparr>) = f m"
  shows "f (snd (fire ev hs s)) = f s"
proof (induction hs arbitrary: s)
  case Nil
  show ?case by simp
next
  case (Cons h hs)
  let ?s1 = "s\<lparr> trace := trace s @ [ev h s] \<rparr>"
  obtain r s2 where r: "runCalls (calls h) ?s1 = (r, s2)"
    by (cases "runCalls (calls h) ?s1")
  have s2: "f s2 = f s"
    using runCalls_preserves[of f "calls h" ?s1, OF assms(1)] r assms(2) by simp
  show ?case
  proof (cases r)
    case (Inl e)
    then show ?thesis using r s2 by simp
  next
    case (Inr u)
    then show ?thesis using r s2 Cons.IH[of s2] by simp
  qed
qed

lemma fire_fields [simp]:
  "phase (snd (fire ev hs s)) = phase s"
  "storeView (snd (fire ev hs s)) = storeView s"
  "firstStateUpdate (snd (fire ev hs s)) = firstStateUpdate s"
  "managerHandlers (snd (fire ev hs s)) = managerHandlers s"
  "extensions (snd (fire ev hs s)) = extensions s"
  by (rule fire_preserves; simp)+

lemma runCalls_late:
  "phaseValue Create < phaseValue (phase s) \<Longrightarrow>
     runCalls cs s = (if cs = [] then Inr () else Inl MANAGER_PHASE_ERROR, s)"
  by (cases cs) (simp_all add: setExtensionStore_late)

lemma fire_quiet:
  assumes "\<forall>h\<in>set hs. calls h = []"
    and "\<And>h m t. ev h (m\<lparr> trace := t \<rparr>) = ev h m"
  shows "fire ev hs s = (Inr (), s\<lparr> trace := trace s @ map (\<lambda>h. ev h s) hs \<rparr>)"
  using assms
proof (induction hs arbitrary: s)
  case Nil
  then show ?case by simp
next
  case (Cons h hs)
  let ?s1 = "s\<lparr> trace := trace s @ [ev h s] \<rparr>"
  have "fire ev (h # hs) s = fire ev hs ?s1"
    using Cons.prems(1) by simp
  also have "\<dots> = (Inr (), ?s1\<lparr> trace := trace ?s1 @ map (\<lambda>h. ev h ?s1) hs \<rparr>)"
    using Cons.prems by (intro Cons.IH) simp_all
  finally show ?case using Cons.prems(2) by simp
qed

lemma fire_late_store:
  assumes "phaseValue Create < phaseValue (phase s)"
  shows "extensionStore (snd (fire ev hs s)) = extensionStore s"
  using assms
proof (induction hs arbitrary: s)
  case Nil
  show ?case by simp
next
  case (Cons h hs)
  let ?s1 = "s\<lparr> trace := trace s @ [ev h s] \<rparr>"
  have late: "phaseValue Create < phaseValue (phase ?s1)" using Cons.prems by simp
  have r: "runCalls (calls h) ?s1 = (if calls h = [] then Inr () else Inl MANAGER_PHASE_ERROR, ?s1)"
    by (rule runCalls_late[OF late])
  show ?case
  proof (cases "calls h = []")
    case True
    then show ?thesis using r Cons.IH[OF late] by simp
  next
    case False
    then show ?thesis using r by simp
  qed
qed

lemma fire_late_throws:
  assumes "phaseValue Create < phaseValue (phase s)"
    and "\<exists>h\<in>set hs. calls h \<noteq> []"
  shows "fst (fire ev hs s) = Inl MANAGER_PHASE_ERROR"
  using assms
proof (induction hs arbitrary: s)
  case Nil
  then show ?case by simp
next
  case (Cons h hs)
  let ?s1 = "s\<lparr> trace := trace s @ [ev h s] \<rparr>"
  have late: "phaseValue Create < phaseValue (phase ?s1)" using Cons.prems by simp
  show ?case
  proof (cases "calls h = []")
    case True
    then have "fire ev (h # hs) s = fire ev hs ?s1" by simp
    moreover have "\<exists>h\<in>set hs. calls h \<noteq> []" using Cons.prems(2) True by auto
    ultimately show ?thesis using Cons.IH[OF late] by simp
  next
    case False
    then show ?thesis using runCalls_late[OF late, of "calls h"] by simp
  qed
qed

lemma create_example:
  "RemirrorManager_create exampleTransform docExtension [paragraphExtension, boldExtension]
     = Inr exampleManager"
  by (simp add: RemirrorManager_create_def RemirrorManager_constructor_def exampleTransform_def
      setupLifecycleHandlers_def bindHandler_def namesOfKind_def paragraphExtension_def
      boldExtension_def docExtension_def exampleManager_def setExtensionStore_def readonlyKeys_def)

text \<open>
  C3, as amended. For every manager and every key that is not one of the read-only
  properties of the extension store, \<open>setExtensionStore\<close> at a phase that is at most
  Create succeeds and writes the key. At every later phase (EditorView, Runtime, Destroy)
  it throws the phase error and leaves the manager, and so the extension store, as it
  was. In particular, when some \<open>onView\<close> handler calls it, \<open>addView\<close> throws the phase
  error and the extension store is unchanged.
\<close>

theorem setExtensionStore_phase_gate:
  "(phaseValue (phase s) \<le> phaseValue Create \<and> key \<notin> set readonlyKeys \<longrightarrow>
      setExtensionStore key val s
        = (Inr (), s\<lparr> extensionStore := (extensionStore s)(key \<mapsto> val) \<rparr>))
   \<and> (phaseValue Create < phaseValue (phase s) \<longrightarrow>
      setExtensionStore key val s = (Inl MANAGER_PHASE_ERROR, s))
   \<and> (phaseValue (phase s) < phaseValue EditorView
        \<and> (\<exists>h\<in>set (viewHandlers (managerHandlers s)). calls h \<noteq> []) \<longrightarrow>
      fst (addView view s) = Inl MANAGER_PHASE_ERROR
      \<and> extensionStore (snd (addView view s)) = extensionStore s)"
proof (intro conjI impI)
  assume "phaseValue (phase s) \<le> phaseValue Create \<and> key \<notin> set readonlyKeys"
  then show "setExtensionStore key val s
        = (Inr (), s\<lparr> extensionStore := (extensionStore s)(key \<mapsto> val) \<rparr>)"
    by (simp add: setExtensionStore_def)
next
  assume "phaseValue Create < phaseValue (phase s)"
  then show "setExtensionStore key val s = (Inl MANAGER_PHASE_ERROR, s)"
    by (rule setExtensionStore_late)
next
  assume a: "phaseValue (phase s) < phaseValue EditorView
        \<and> (\<exists>h\<in>set (viewHandlers (managerHandlers s)). calls h \<noteq> [])"
  let ?s1 = "s\<lparr> firstStateUpdate := True, phase := EditorView, storeView := Some view \<rparr>"
  have late: "phaseValue Create < phaseValue (phase ?s1)" by simp
  have eq: "addView view s
      = fire (\<lambda>h m. OnView (owner h) (viewId view)) (viewHandlers (managerHandlers s)) ?s1"
    using a by (simp add: addView_def)
  show "fst (addView view s) = Inl MANAGER_PHASE_ERROR"
    using a fire_late_throws[OF late, of "viewHandlers (managerHandlers s)"] eq by simp
  show "extensionStore (snd (addView view s)) = extensionStore s"
    using fire_late_store[OF late] eq by simp
qed

theorem setExtensionStore_phase_gate_witness:
  "setExtensionStore ''helpers'' (CustomValue ''isBold'') exampleManager
     = (Inr (), exampleManager\<lparr> extensionStore :=
          (extensionStore exampleManager)(''helpers'' \<mapsto> CustomValue ''isBold'') \<rparr>)
   \<and> setExtensionStore ''helpers'' (CustomValue ''isBold'') (exampleManager\<lparr> phase := Runtime \<rparr>)
     = (Inl MANAGER_PHASE_ERROR, exampleManager\<lparr> phase := Runtime \<rparr>)
   \<and> fst (addView exampleView intrusiveManager) = Inl MANAGER_PHASE_ERROR"
proof -
  have 1: "phaseValue (phase exampleManager) \<le> phaseValue Create \<and> ''helpers'' \<notin> set readonlyKeys"
    by (simp add: exampleManager_def readonlyKeys_def)
  have 2: "phaseValue Create < phaseValue (phase (exampleManager\<lparr> phase := Runtime \<rparr>))"
    by simp
  have 3: "phaseValue (phase intrusiveManager) < phaseValue EditorView
        \<and> (\<exists>h\<in>set (viewHandlers (managerHandlers intrusiveManager)). calls h \<noteq> [])"
    by (simp add: intrusiveManager_def exampleManager_def)
  show ?thesis
    using 1 2 3
      setExtensionStore_phase_gate[of exampleManager "''helpers''" "CustomValue ''isBold''" exampleView]
      setExtensionStore_phase_gate[of "exampleManager\<lparr> phase := Runtime \<rparr>" "''helpers''"
        "CustomValue ''isBold''" exampleView]
      setExtensionStore_phase_gate[of intrusiveManager "''helpers''" "CustomValue ''isBold''" exampleView]
    by blast
qed

text \<open>
  C3, as stated, fails for a read-only key: at phase Create, writing \<open>phase\<close> throws a
  TypeError and writes nothing.
\<close>

theorem setExtensionStore_readonly_counterexample:
  "phaseValue (phase exampleManager) \<le> phaseValue Create
   \<and> setExtensionStore ''phase'' (CustomValue ''Runtime'') exampleManager
       = (Inl TypeError, exampleManager)"
  by (simp add: setExtensionStore_def exampleManager_def readonlyKeys_def)

lemma onStateUpdate_fields:
  "phase (snd (onStateUpdate prev st s)) = (if firstStateUpdate s then Runtime else phase s)"
  "firstStateUpdate (snd (onStateUpdate prev st s)) = False"
  "storeView (snd (onStateUpdate prev st s)) = storeView s"
  "managerHandlers (snd (onStateUpdate prev st s)) = managerHandlers s"
proof -
  define s2 where "s2 =
    (if firstStateUpdate s
     then s\<lparr> extensionStore := (extensionStore s)(''currentState'' \<mapsto> StateValue st,
                ''previousState'' \<mapsto> StateValue prev),
             phase := Runtime, firstStateUpdate := False \<rparr>
     else s\<lparr> extensionStore := (extensionStore s)(''currentState'' \<mapsto> StateValue st,
                ''previousState'' \<mapsto> StateValue prev) \<rparr>)"
  define p where "p = \<lparr> previousState = prev, newState = st, firstUpdate = firstStateUpdate s \<rparr>"
  define r where "r = fire (onStateUpdateEvent p) (updateHandlers (managerHandlers s2)) s2"
  have out: "snd (onStateUpdate prev st s)
      = (case fst r of Inl e \<Rightarrow> snd r
         | Inr u \<Rightarrow> (snd r)\<lparr> trace := trace (snd r) @ [EmitStateUpdate p] \<rparr>)"
    by (cases r; cases "fst r")
      (auto simp: onStateUpdate_def Let_def s2_def p_def r_def split: sum.splits)
  have f: "phase (snd r) = phase s2" "firstStateUpdate (snd r) = firstStateUpdate s2"
    "storeView (snd r) = storeView s2" "managerHandlers (snd r) = managerHandlers s2"
    by (simp_all add: r_def)
  show "phase (snd (onStateUpdate prev st s)) = (if firstStateUpdate s then Runtime else phase s)"
    using out f by (cases "fst r") (simp_all add: s2_def)
  show "firstStateUpdate (snd (onStateUpdate prev st s)) = False"
    using out f by (cases "fst r") (simp_all add: s2_def)
  show "storeView (snd (onStateUpdate prev st s)) = storeView s"
    using out f by (cases "fst r") (simp_all add: s2_def)
  show "managerHandlers (snd (onStateUpdate prev st s)) = managerHandlers s"
    using out f by (cases "fst r") (simp_all add: s2_def)
qed

text \<open>
  C4. \<open>getState\<close> throws the phase error whenever the phase is below EditorView, as it
  is before \<open>addView\<close>. After \<open>addView\<close> it returns the state of the view that was
  added; in general, with a view attached it returns the state of that view, and after
  \<open>updateState\<close> that is the state just given. As long as no view is stored it throws
  in every phase: the phase error below EditorView, a TypeError on the missing view at a
  later phase (reached without a view by a state update or a \<open>destroy\<close>).
\<close>

theorem getState_phase_gate:
  "(phaseValue (phase s) < phaseValue EditorView \<longrightarrow> getState s = Inl MANAGER_PHASE_ERROR)
   \<and> (phaseValue (phase s) < phaseValue EditorView \<longrightarrow>
        getState (snd (addView view s)) = Inr (state view))
   \<and> (phaseValue (phase s) \<ge> phaseValue EditorView \<and> storeView s = Some v \<longrightarrow>
        getState s = Inr (state v))
   \<and> (phaseValue (phase s) \<ge> phaseValue EditorView \<and> storeView s = Some v \<longrightarrow>
        getState (snd (updateState st s)) = Inr st)
   \<and> (storeView s = None \<longrightarrow>
        getState s = Inl (if phaseValue (phase s) < phaseValue EditorView
                          then MANAGER_PHASE_ERROR else TypeError))"
proof (intro conjI impI)
  assume "storeView s = None"
  then show "getState s = Inl (if phaseValue (phase s) < phaseValue EditorView
                          then MANAGER_PHASE_ERROR else TypeError)"
    by (simp add: getState_def)
next
  assume "phaseValue (phase s) < phaseValue EditorView"
  then show "getState s = Inl MANAGER_PHASE_ERROR" by (simp add: getState_def)
next
  assume "phaseValue (phase s) < phaseValue EditorView"
  then show "getState (snd (addView view s)) = Inr (state view)"
    by (simp add: getState_def addView_def)
next
  assume "phaseValue (phase s) \<ge> phaseValue EditorView \<and> storeView s = Some v"
  then show "getState s = Inr (state v)" by (simp add: getState_def)
next
  assume a: "phaseValue (phase s) \<ge> phaseValue EditorView \<and> storeView s = Some v"
  let ?s1 = "s\<lparr> storeView := map_option (\<lambda>v. v\<lparr> state := st \<rparr>) (storeView s) \<rparr>"
  have g: "getState s = Inr (state v)" using a by (simp add: getState_def)
  have u: "updateState st s = onStateUpdate (state v) st ?s1"
    using g by (simp add: updateState_def)
  have "storeView (snd (onStateUpdate (state v) st ?s1)) = Some (v\<lparr> state := st \<rparr>)"
    and "phaseValue (phase (snd (onStateUpdate (state v) st ?s1))) \<ge> phaseValue EditorView"
    using a by (simp_all add: onStateUpdate_fields)
  then show "getState (snd (updateState st s)) = Inr st"
    using u by (simp add: getState_def)
qed

theorem getState_phase_gate_witness:
  "getState exampleManager = Inl MANAGER_PHASE_ERROR
   \<and> getState (snd (addView exampleView exampleManager)) = Inr exampleState
   \<and> getState (snd (updateState otherState (snd (addView exampleView exampleManager))))
       = Inr otherState"
proof -
  let ?s1 = "snd (addView exampleView exampleManager)"
  have 1: "phaseValue (phase exampleManager) < phaseValue EditorView"
    by (simp add: exampleManager_def)
  have 2: "phaseValue (phase ?s1) \<ge> phaseValue EditorView \<and> storeView ?s1 = Some exampleView"
    by (simp add: addView_def exampleManager_def)
  have 3: "storeView exampleManager = None"
    by (simp add: exampleManager_def)
  show ?thesis
    using 1 2 3 getState_phase_gate[of exampleManager exampleView exampleView otherState]
      getState_phase_gate[of ?s1 exampleView exampleView otherState]
    by (simp add: exampleView_def)
qed

text \<open>
  C7. Without the privacy symbol the constructor throws NEW_EDITOR_MANAGER, whatever the
  resolution of the combined units would do; a constructor call that returns a manager
  was given the symbol, and the static \<open>create\<close> is the constructor called with it.
\<close>

theorem constructor_requires_privacy:
  "(privacy \<noteq> Some privacySymbol \<longrightarrow>
      RemirrorManager_constructor transform combined privacy = Inl NEW_EDITOR_MANAGER)
   \<and> (RemirrorManager_constructor transform combined privacy = Inr m \<longrightarrow>
      privacy = Some privacySymbol)
   \<and> RemirrorManager_create transform builtin combined
      = RemirrorManager_constructor transform (combined @ [builtin]) (Some privacySymbol)"
  by (auto simp: RemirrorManager_constructor_def RemirrorManager_create_def)

theorem constructor_requires_privacy_witness:
  "RemirrorManager_constructor exampleTransform [paragraphExtension] None = Inl NEW_EDITOR_MANAGER
   \<and> RemirrorManager_constructor exampleTransform [paragraphExtension] (Some (OtherSymbol 7))
       = Inl NEW_EDITOR_MANAGER
   \<and> RemirrorManager_constructor exampleTransform
        [paragraphExtension, boldExtension, docExtension] (Some privacySymbol) = Inr exampleManager"
proof -
  have 1: "(None :: symbol option) \<noteq> Some privacySymbol" by simp
  have 2: "Some (OtherSymbol 7) \<noteq> Some privacySymbol" by simp
  have 3: "RemirrorManager_constructor exampleTransform
        [paragraphExtension, boldExtension, docExtension] (Some privacySymbol) = Inr exampleManager"
    using create_example by (simp add: RemirrorManager_create_def)
  show ?thesis
    using 1 2 3
      constructor_requires_privacy[of None exampleTransform "[paragraphExtension]" exampleManager docExtension]
      constructor_requires_privacy[of "Some (OtherSymbol 7)" exampleTransform "[paragraphExtension]"
        exampleManager docExtension]
      constructor_requires_privacy[of "Some privacySymbol" exampleTransform
        "[paragraphExtension, boldExtension, docExtension]" exampleManager docExtension]
    by blast
qed

section \<open>The lifecycle\<close>


lemma addView_first:
  assumes "phaseValue (phase s) < phaseValue EditorView"
  shows "addView view s
    = fire (\<lambda>h m. OnView (owner h) (viewId view)) (viewHandlers (managerHandlers s))
        (s\<lparr> firstStateUpdate := True, phase := EditorView, storeView := Some view \<rparr>)"
  using assms by (simp add: addView_def)

lemma addView_fields:
  assumes "phaseValue (phase s) < phaseValue EditorView"
  shows "phase (snd (addView view s)) = EditorView"
    and "firstStateUpdate (snd (addView view s)) = True"
    and "storeView (snd (addView view s)) = Some view"
    and "managerHandlers (snd (addView view s)) = managerHandlers s"
  using assms by (simp_all add: addView_first)

text \<open>
  C5. On a manager whose phase is below EditorView, \<open>addView\<close> stores the view, sets
  the phase to EditorView and, when no \<open>onView\<close> handler throws, invokes every
  \<open>onView\<close> handler once, in the order of the handler list. A further \<open>addView\<close>,
  with the same or another view, returns the manager unchanged, so the first view stays
  stored and no handler runs again; in general \<open>addView\<close> changes nothing once the
  phase is EditorView or later.
\<close>

theorem addView_idempotent:
  "(phaseValue (phase s) < phaseValue EditorView
      \<and> (\<forall>h\<in>set (viewHandlers (managerHandlers s)). calls h = []) \<longrightarrow>
      addView view s
        = (Inr (), s\<lparr> firstStateUpdate := True, phase := EditorView, storeView := Some view,
                       trace := trace s @ map (\<lambda>h. OnView (owner h) (viewId view))
                                             (viewHandlers (managerHandlers s)) \<rparr>))
   \<and> (phaseValue (phase s) < phaseValue EditorView \<longrightarrow>
      addView view' (snd (addView view s)) = (Inr (), snd (addView view s))
      \<and> storeView (snd (addView view' (snd (addView view s)))) = Some view)
   \<and> (phaseValue (phase s) \<ge> phaseValue EditorView \<longrightarrow> addView view s = (Inr (), s))"
proof (intro conjI impI)
  assume a: "phaseValue (phase s) < phaseValue EditorView
      \<and> (\<forall>h\<in>set (viewHandlers (managerHandlers s)). calls h = [])"
  let ?s1 = "s\<lparr> firstStateUpdate := True, phase := EditorView, storeView := Some view \<rparr>"
  have "fire (\<lambda>h m. OnView (owner h) (viewId view)) (viewHandlers (managerHandlers s)) ?s1
      = (Inr (), ?s1\<lparr> trace := trace ?s1 @ map (\<lambda>h. OnView (owner h) (viewId view))
                                             (viewHandlers (managerHandlers s)) \<rparr>)"
    using a by (intro fire_quiet) simp_all
  then show "addView view s
        = (Inr (), s\<lparr> firstStateUpdate := True, phase := EditorView, storeView := Some view,
                       trace := trace s @ map (\<lambda>h. OnView (owner h) (viewId view))
                                             (viewHandlers (managerHandlers s)) \<rparr>)"
    using a by (simp add: addView_first)
next
  assume a: "phaseValue (phase s) < phaseValue EditorView"
  have p: "phase (snd (addView view s)) = EditorView"
    and v: "storeView (snd (addView view s)) = Some view"
    using addView_fields[OF a] by simp_all
  show "addView view' (snd (addView view s)) = (Inr (), snd (addView view s))"
    using p by (simp add: addView_def)
  then show "storeView (snd (addView view' (snd (addView view s)))) = Some view"
    using v by simp
next
  assume "phaseValue (phase s) \<ge> phaseValue EditorView"
  then show "addView view s = (Inr (), s)" by (simp add: addView_def)
qed

theorem addView_idempotent_witness:
  "trace (snd (addView exampleView exampleManager))
      = [OnCreate ''bold'', OnView ''paragraph'' 1, OnView ''bold'' 1]
   \<and> phase (snd (addView exampleView exampleManager)) = EditorView
   \<and> addView otherView (snd (addView exampleView exampleManager))
      = (Inr (), snd (addView exampleView exampleManager))
   \<and> storeView (snd (addView otherView (snd (addView exampleView exampleManager))))
      = Some exampleView"
proof -
  let ?s1 = "snd (addView exampleView exampleManager)"
  have 1: "phaseValue (phase exampleManager) < phaseValue EditorView
      \<and> (\<forall>h\<in>set (viewHandlers (managerHandlers exampleManager)). calls h = [])"
    by (simp add: exampleManager_def)
  have 2: "phaseValue (phase ?s1) \<ge> phaseValue EditorView"
    using 1 by (simp add: addView_fields)
  have 3: "addView exampleView exampleManager
        = (Inr (), exampleManager\<lparr> firstStateUpdate := True, phase := EditorView,
             storeView := Some exampleView,
             trace := trace exampleManager @ map (\<lambda>h. OnView (owner h) (viewId exampleView))
                        (viewHandlers (managerHandlers exampleManager)) \<rparr>)"
    using 1 addView_idempotent[of exampleManager exampleView otherView] by blast
  have 4: "addView otherView ?s1 = (Inr (), ?s1)
      \<and> storeView (snd (addView otherView ?s1)) = Some exampleView"
    using 1 addView_idempotent[of exampleManager exampleView otherView] by blast
  have 5: "addView otherView ?s1 = (Inr (), ?s1)"
    using 2 addView_idempotent[of ?s1 otherView otherView] by blast
  have 6: "trace ?s1 = [OnCreate ''bold'', OnView ''paragraph'' 1, OnView ''bold'' 1]"
    by (simp add: 3) (simp add: exampleManager_def exampleView_def)
  have 7: "phase ?s1 = EditorView" by (simp add: 3)
  show ?thesis using 4 5 6 7 by simp
qed

lemma pluginStateDestroys_destroyCalls [simp]:
  "pluginStateDestroys (Some (v\<lparr> destroyCalls := n \<rparr>)) = pluginStateDestroys (Some v)"
  by (simp add: pluginStateDestroys_def)

lemma destroy_quiet:
  assumes "\<forall>h\<in>set (destroyHandlers (managerHandlers s)). calls h = []"
  shows "fst (destroy s) = Inr ()"
    and "phase (snd (destroy s)) = Destroy"
    and "managerHandlers (snd (destroy s)) = managerHandlers s"
    and "storeView (snd (destroy s))
           = map_option (\<lambda>v. v\<lparr> destroyCalls := Suc (destroyCalls v) \<rparr>) (storeView s)"
    and "trace (snd (destroy s))
           = trace s @ pluginStateDestroys (storeView s)
             @ map (\<lambda>h. OnDestroy (owner h)) (destroyHandlers (managerHandlers s))
             @ (case storeView s of None \<Rightarrow> [] | Some v \<Rightarrow> [ViewDestroy (viewId v)])
             @ [EmitDestroy]"
proof -
  let ?s2 = "s\<lparr> phase := Destroy, trace := trace s @ pluginStateDestroys (storeView s) \<rparr>"
  let ?hs = "destroyHandlers (managerHandlers s)"
  have f: "fire (\<lambda>h m. OnDestroy (owner h)) ?hs ?s2
      = (Inr (), ?s2\<lparr> trace := trace ?s2 @ map (\<lambda>h. OnDestroy (owner h)) ?hs \<rparr>)"
    using assms by (intro fire_quiet) simp_all
  have d: "destroy s
      = (Inr (), (viewDestroy (?s2\<lparr> trace := trace ?s2 @ map (\<lambda>h. OnDestroy (owner h)) ?hs \<rparr>))
           \<lparr> trace := trace (viewDestroy (?s2\<lparr> trace := trace ?s2 @ map (\<lambda>h. OnDestroy (owner h)) ?hs \<rparr>))
                       @ [EmitDestroy] \<rparr>)"
    using f by (simp add: destroy_def Let_def)
  show "fst (destroy s) = Inr ()" using d by simp
  show "phase (snd (destroy s)) = Destroy"
    using d by (simp add: viewDestroy_def split: option.splits)
  show "managerHandlers (snd (destroy s)) = managerHandlers s"
    using d by (simp add: viewDestroy_def split: option.splits)
  show "storeView (snd (destroy s))
           = map_option (\<lambda>v. v\<lparr> destroyCalls := Suc (destroyCalls v) \<rparr>) (storeView s)"
    using d by (simp add: viewDestroy_def split: option.splits)
  show "trace (snd (destroy s))
           = trace s @ pluginStateDestroys (storeView s)
             @ map (\<lambda>h. OnDestroy (owner h)) (destroyHandlers (managerHandlers s))
             @ (case storeView s of None \<Rightarrow> [] | Some v \<Rightarrow> [ViewDestroy (viewId v)])
             @ [EmitDestroy]"
    using d by (simp add: viewDestroy_def split: option.splits)
qed

text \<open>
  C1, as amended. When no \<open>onDestroy\<close> handler throws, a second \<open>destroy\<close> does not
  throw and leaves the phase at Destroy, but it runs the teardown again: the plugin states
  of the view are destroyed again, every \<open>onDestroy\<close> handler is invoked again, in the
  same order, \<open>destroy\<close> is called on the attached view a second time, and the
  \<open>destroy\<close> event is emitted again.
\<close>

theorem destroy_twice_repeats_teardown:
  assumes "\<forall>h\<in>set (destroyHandlers (managerHandlers s)). calls h = []"
  shows "fst (destroy (snd (destroy s))) = Inr ()
    \<and> phase (snd (destroy (snd (destroy s)))) = Destroy
    \<and> trace (snd (destroy (snd (destroy s))))
        = trace (snd (destroy s)) @ pluginStateDestroys (storeView s)
          @ map (\<lambda>h. OnDestroy (owner h)) (destroyHandlers (managerHandlers s))
          @ (case storeView s of None \<Rightarrow> [] | Some v \<Rightarrow> [ViewDestroy (viewId v)])
          @ [EmitDestroy]
    \<and> map_option destroyCalls (storeView (snd (destroy (snd (destroy s)))))
        = map_option (\<lambda>v. destroyCalls v + 2) (storeView s)"
proof -
  let ?s1 = "snd (destroy s)"
  have h1: "managerHandlers ?s1 = managerHandlers s"
    and v1: "storeView ?s1
           = map_option (\<lambda>v. v\<lparr> destroyCalls := Suc (destroyCalls v) \<rparr>) (storeView s)"
    using destroy_quiet[OF assms] by simp_all
  have q1: "\<forall>h\<in>set (destroyHandlers (managerHandlers ?s1)). calls h = []"
    using assms h1 by simp
  note second = destroy_quiet[OF q1]
  have "trace (snd (destroy ?s1))
        = trace ?s1 @ pluginStateDestroys (storeView s)
          @ map (\<lambda>h. OnDestroy (owner h)) (destroyHandlers (managerHandlers s))
          @ (case storeView s of None \<Rightarrow> [] | Some v \<Rightarrow> [ViewDestroy (viewId v)])
          @ [EmitDestroy]"
    using second(5) h1 v1 by (cases "storeView s") simp_all
  moreover have "map_option destroyCalls (storeView (snd (destroy ?s1)))
        = map_option (\<lambda>v. destroyCalls v + 2) (storeView s)"
    using second(4) v1 by (cases "storeView s") simp_all
  ultimately show ?thesis using second(1,2) by simp
qed

theorem destroy_twice_repeats_teardown_witness:
  "fst (destroy (snd (destroy (snd (addView exampleView exampleManager))))) = Inr ()
   \<and> trace (snd (destroy (snd (destroy (snd (addView exampleView exampleManager))))))
      = trace (snd (destroy (snd (addView exampleView exampleManager))))
        @ [PluginStateDestroy ''history'', OnDestroy ''paragraph'', OnDestroy ''bold'',
           ViewDestroy 1, EmitDestroy]"
proof -
  let ?s = "snd (addView exampleView exampleManager)"
  have p: "phaseValue (phase exampleManager) < phaseValue EditorView"
    by (simp add: exampleManager_def)
  have h: "managerHandlers ?s = managerHandlers exampleManager"
    and v: "storeView ?s = Some exampleView"
    using addView_fields[OF p] by simp_all
  have q: "\<forall>h\<in>set (destroyHandlers (managerHandlers ?s)). calls h = []"
    by (simp add: h) (simp add: exampleManager_def)
  show ?thesis
    using destroy_twice_repeats_teardown[OF q]
    by (simp add: h v) (simp add: exampleManager_def exampleView_def exampleState_def
        EditorState_create_def historyPlugin_def pluginStateDestroys_def)
qed

text \<open>
  C1, as stated, fails: on the mounted example manager the second \<open>destroy\<close> invokes
  both \<open>onDestroy\<close> handlers again and the view has then been destroyed twice.
\<close>

theorem destroy_twice_counterexample:
  "trace (snd (destroy (snd (destroy (snd (addView exampleView exampleManager))))))
      = trace (snd (destroy (snd (addView exampleView exampleManager))))
        @ [PluginStateDestroy ''history'', OnDestroy ''paragraph'', OnDestroy ''bold'',
           ViewDestroy 1, EmitDestroy]
   \<and> map_option destroyCalls
        (storeView (snd (destroy (snd (destroy (snd (addView exampleView exampleManager)))))))
      = Some 2"
  by (simp add: destroy_def addView_def viewDestroy_def pluginStateDestroys_def Let_def
      exampleManager_def exampleView_def exampleState_def EditorState_create_def
      historyPlugin_def setExtensionStore_def)

section \<open>State updates\<close>


lemma onStateUpdate_quiet:
  assumes "\<forall>h\<in>set (updateHandlers (managerHandlers s)). calls h = []"
  shows "fst (onStateUpdate prev st s) = Inr ()"
    and "trace (snd (onStateUpdate prev st s))
           = trace s @ updateRound (updateHandlers (managerHandlers s)) (firstStateUpdate s) (prev, st)"
    and "extensionStore (snd (onStateUpdate prev st s))
           = (extensionStore s)(''currentState'' \<mapsto> StateValue st,
                                ''previousState'' \<mapsto> StateValue prev)"
proof -
  define s1 where "s1 = s\<lparr> extensionStore :=
      (extensionStore s)(''currentState'' \<mapsto> StateValue st, ''previousState'' \<mapsto> StateValue prev) \<rparr>"
  define s2 where "s2 =
     (if firstStateUpdate s1 then s1\<lparr> phase := Runtime, firstStateUpdate := False \<rparr> else s1)"
  define p where "p = \<lparr> previousState = prev, newState = st, firstUpdate = firstStateUpdate s \<rparr>"
  have hs: "updateHandlers (managerHandlers s2) = updateHandlers (managerHandlers s)"
    and tr: "trace s2 = trace s"
    and es: "extensionStore s2 = extensionStore s1"
    by (simp_all add: s2_def s1_def)
  have f: "fire (onStateUpdateEvent p) (updateHandlers (managerHandlers s2)) s2
      = (Inr (), s2\<lparr> trace := trace s2 @ map (\<lambda>h. onStateUpdateEvent p h s2)
                                            (updateHandlers (managerHandlers s2)) \<rparr>)"
    using assms hs by (intro fire_quiet) (simp_all add: onStateUpdateEvent_def)
  have out: "onStateUpdate prev st s
      = (Inr (), s2\<lparr> trace := trace s2 @ map (\<lambda>h. onStateUpdateEvent p h s2)
                                            (updateHandlers (managerHandlers s2))
                                  @ [EmitStateUpdate p] \<rparr>)"
  proof -
    have "onStateUpdate prev st s
        = (case fire (onStateUpdateEvent p) (updateHandlers (managerHandlers s2)) s2 of
             (Inl e, s3) \<Rightarrow> (Inl e, s3)
           | (Inr u, s3) \<Rightarrow> (Inr (), s3\<lparr> trace := trace s3 @ [EmitStateUpdate p] \<rparr>))"
      by (simp only: onStateUpdate_def Let_def s1_def s2_def p_def)
    also have "\<dots> = (Inr (), s2\<lparr> trace := trace s2 @ map (\<lambda>h. onStateUpdateEvent p h s2)
                                            (updateHandlers (managerHandlers s2))
                                  @ [EmitStateUpdate p] \<rparr>)"
      by (simp only: f) simp
    finally show ?thesis .
  qed
  have ev: "\<And>h. onStateUpdateEvent p h s2
      = OnStateUpdate (owner h) p (Some (StateValue st)) (Some (StateValue prev))"
    by (simp add: onStateUpdateEvent_def es s1_def)
  show "fst (onStateUpdate prev st s) = Inr ()" using out by simp
  have "trace (snd (onStateUpdate prev st s))
      = trace s @ map (\<lambda>h. OnStateUpdate (owner h) p (Some (StateValue st))
                               (Some (StateValue prev))) (updateHandlers (managerHandlers s))
        @ [EmitStateUpdate p]"
    using out by (simp add: ev hs tr)
  then show "trace (snd (onStateUpdate prev st s))
           = trace s @ updateRound (updateHandlers (managerHandlers s)) (firstStateUpdate s) (prev, st)"
    by (simp add: updateRound_def Let_def p_def)
  show "extensionStore (snd (onStateUpdate prev st s))
           = (extensionStore s)(''currentState'' \<mapsto> StateValue st,
                                ''previousState'' \<mapsto> StateValue prev)"
    using out by (simp add: es s1_def)
qed

lemma deliverUpdates_quiet:
  assumes "\<forall>h\<in>set (updateHandlers (managerHandlers s)). calls h = []"
  shows "fst (deliverUpdates us s) = Inr ()
    \<and> trace (snd (deliverUpdates us s))
        = trace s @ updateRounds (updateHandlers (managerHandlers s)) (firstStateUpdate s) us
    \<and> phase (snd (deliverUpdates us s))
        = (if us \<noteq> [] \<and> firstStateUpdate s then Runtime else phase s)
    \<and> (us \<noteq> [] \<longrightarrow>
         extensionStore (snd (deliverUpdates us s)) ''currentState''
           = Some (StateValue (snd (last us)))
         \<and> extensionStore (snd (deliverUpdates us s)) ''previousState''
           = Some (StateValue (fst (last us))))"
  using assms
proof (induction us arbitrary: s)
  case Nil
  show ?case by simp
next
  case (Cons u us)
  let ?s1 = "snd (onStateUpdate (fst u) (snd u) s)"
  note step = onStateUpdate_quiet[OF Cons.prems, of "fst u" "snd u"]
  have d: "deliverUpdates (u # us) s = deliverUpdates us ?s1"
    using step(1) by (cases "onStateUpdate (fst u) (snd u) s") simp
  have h1: "managerHandlers ?s1 = managerHandlers s"
    and f1: "firstStateUpdate ?s1 = False"
    and p1: "phase ?s1 = (if firstStateUpdate s then Runtime else phase s)"
    by (simp_all add: onStateUpdate_fields)
  have q1: "\<forall>h\<in>set (updateHandlers (managerHandlers ?s1)). calls h = []"
    using Cons.prems h1 by simp
  note ih = Cons.IH[OF q1]
  show ?case
  proof (cases "us = []")
    case True
    then show ?thesis using d step h1 p1 by simp
  next
    case False
    then show ?thesis using d ih step(2) h1 f1 p1 by simp
  qed
qed

lemma firstUpdateFlags_append:
  "firstUpdateFlags n (xs @ ys) = firstUpdateFlags n xs @ firstUpdateFlags n ys"
  by (induction n xs rule: firstUpdateFlags.induct) simp_all

lemma firstUpdateFlags_handlers:
  "firstUpdateFlags n (map (\<lambda>h. OnStateUpdate (owner h) p c q) hs)
     = map (\<lambda>h. firstUpdate p) (filter (\<lambda>h. owner h = n) hs)"
  by (induction hs) simp_all

lemma filter_owner_distinct:
  "distinct (map owner hs) \<Longrightarrow> h \<in> set hs \<Longrightarrow> length (filter (\<lambda>x. owner x = owner h) hs) = 1"
proof (induction hs)
  case Nil
  then show ?case by simp
next
  case (Cons x xs)
  show ?case
  proof (cases "x = h")
    case True
    have "owner h \<notin> owner ` set xs"
      using Cons.prems(1) True by simp
    then have "\<forall>y\<in>set xs. owner y \<noteq> owner h"
      by (metis imageI)
    then have "filter (\<lambda>y. owner y = owner h) xs = []"
      by (simp add: filter_empty_conv)
    then show ?thesis using True by simp
  next
    case False
    then have "h \<in> set xs" using Cons.prems(2) by simp
    moreover have "owner x \<noteq> owner h"
      using Cons.prems(1) \<open>h \<in> set xs\<close> by auto
    ultimately show ?thesis using Cons by simp
  qed
qed

lemma firstUpdateFlags_round:
  assumes "distinct (map owner hs)" and "h \<in> set hs"
  shows "firstUpdateFlags (owner h) (updateRound hs b u) = [b]"
proof -
  have "length (filter (\<lambda>x. owner x = owner h) hs) = 1"
    using assms by (rule filter_owner_distinct)
  then obtain y where "filter (\<lambda>x. owner x = owner h) hs = [y]"
    by (cases "filter (\<lambda>x. owner x = owner h) hs") auto
  then show ?thesis
    by (simp add: updateRound_def Let_def firstUpdateFlags_append firstUpdateFlags_handlers)
qed

lemma firstUpdateFlags_rounds:
  assumes "distinct (map owner hs)" and "h \<in> set hs"
  shows "firstUpdateFlags (owner h) (updateRounds hs b us)
     = (if us = [] then [] else b # replicate (length us - 1) False)"
proof (induction us arbitrary: b)
  case Nil
  show ?case by simp
next
  case (Cons u us)
  show ?case
    using Cons.IH[of False] firstUpdateFlags_round[OF assms]
    by (cases us) (simp_all add: firstUpdateFlags_append)
qed

text \<open>
  C6. Take a manager with no view yet, add a view, and deliver N state updates; assume no
  \<open>onStateUpdate\<close> handler throws. The sequence completes, and the trace grows by N
  rounds: in each round every handler is invoked once, in the order of the handler list,
  with the new and the previous state already readable from the extension store, and then
  the \<open>stateUpdate\<close> event is emitted; the first round carries \<open>firstUpdate = true\<close>,
  the others \<open>false\<close>. Hence, with handlers of distinct extensions, each handler
  receives exactly N invocations, the first flagged true and the rest false. The first
  update sets the phase to Runtime, where it stays, and after the updates the extension
  store holds the last new and previous state.
\<close>

theorem onStateUpdate_rounds:
  assumes "phaseValue (phase s0) < phaseValue EditorView"
    and "\<forall>h\<in>set (updateHandlers (managerHandlers s0)). calls h = []"
    and "distinct (map owner (updateHandlers (managerHandlers s0)))"
  shows "fst (deliverUpdates us (snd (addView view s0))) = Inr ()
    \<and> trace (snd (deliverUpdates us (snd (addView view s0))))
        = trace (snd (addView view s0))
          @ updateRounds (updateHandlers (managerHandlers s0)) True us
    \<and> (\<forall>h\<in>set (updateHandlers (managerHandlers s0)).
          firstUpdateFlags (owner h) (updateRounds (updateHandlers (managerHandlers s0)) True us)
            = (if us = [] then [] else True # replicate (length us - 1) False))
    \<and> phase (snd (onStateUpdate prev st (snd (addView view s0)))) = Runtime
    \<and> (us \<noteq> [] \<longrightarrow>
          phase (snd (deliverUpdates us (snd (addView view s0)))) = Runtime
          \<and> extensionStore (snd (deliverUpdates us (snd (addView view s0)))) ''currentState''
              = Some (StateValue (snd (last us)))
          \<and> extensionStore (snd (deliverUpdates us (snd (addView view s0)))) ''previousState''
              = Some (StateValue (fst (last us))))"
proof -
  let ?s = "snd (addView view s0)"
  have h: "managerHandlers ?s = managerHandlers s0"
    and f: "firstStateUpdate ?s = True"
    using addView_fields[OF assms(1)] by simp_all
  have q: "\<forall>h\<in>set (updateHandlers (managerHandlers ?s)). calls h = []"
    using assms(2) h by simp
  note d = deliverUpdates_quiet[OF q, of us]
  have flags: "\<forall>h\<in>set (updateHandlers (managerHandlers s0)).
          firstUpdateFlags (owner h) (updateRounds (updateHandlers (managerHandlers s0)) True us)
            = (if us = [] then [] else True # replicate (length us - 1) False)"
    using firstUpdateFlags_rounds[OF assms(3)] by blast
  have first: "phase (snd (onStateUpdate prev st ?s)) = Runtime"
    using f by (simp add: onStateUpdate_fields)
  show ?thesis using d h f flags first by simp
qed

theorem onStateUpdate_rounds_witness:
  "fst (deliverUpdates [(exampleState, otherState), (otherState, exampleState)]
          (snd (addView exampleView exampleManager))) = Inr ()
   \<and> firstUpdateFlags ''bold''
        (drop (length (trace (snd (addView exampleView exampleManager))))
          (trace (snd (deliverUpdates [(exampleState, otherState), (otherState, exampleState)]
                   (snd (addView exampleView exampleManager))))))
      = [True, False]
   \<and> phase (snd (deliverUpdates [(exampleState, otherState), (otherState, exampleState)]
                (snd (addView exampleView exampleManager)))) = Runtime"
proof -
  have 1: "phaseValue (phase exampleManager) < phaseValue EditorView"
    by (simp add: exampleManager_def)
  have 2: "\<forall>h\<in>set (updateHandlers (managerHandlers exampleManager)). calls h = []"
    by (simp add: exampleManager_def)
  have 3: "distinct (map owner (updateHandlers (managerHandlers exampleManager)))"
    by (simp add: exampleManager_def)
  have 4: "\<lparr> owner = ''bold'', calls = [] \<rparr> \<in> set (updateHandlers (managerHandlers exampleManager))"
    by (simp add: exampleManager_def)
  note t = onStateUpdate_rounds[OF 1 2 3,
      of "[(exampleState, otherState), (otherState, exampleState)]" exampleView
         exampleState otherState]
  have flags: "firstUpdateFlags ''bold''
      (updateRounds (updateHandlers (managerHandlers exampleManager)) True
         [(exampleState, otherState), (otherState, exampleState)]) = [True, False]"
    using t 4 by fastforce
  show ?thesis using t flags by simp
qed

section \<open>Documents, states and selections\<close>


lemma nodeSize_nonneg: "0 \<le> nodeSize d"
proof (induction d)
  case (TextNode t)
  show ?case by simp
next
  case (LeafNode n)
  show ?case by simp
next
  case (BranchNode n cs)
  then have "0 \<le> sum_list (map nodeSize cs)"
    by (intro sum_list_nonneg) auto
  then show ?case by simp
qed

lemma contentSize_branch:
  "contentSize (BranchNode n cs) = nodeSize (BranchNode n cs) - 2"
  "0 \<le> nodeSize (BranchNode n cs) - 2"
proof -
  show "contentSize (BranchNode n cs) = nodeSize (BranchNode n cs) - 2" by simp
  have "0 \<le> sum_list (map nodeSize cs)"
    by (intro sum_list_nonneg) (auto simp: nodeSize_nonneg)
  then show "0 \<le> nodeSize (BranchNode n cs) - 2" by simp
qed

lemma findIndexFrom_int:
  assumes "c < k" and "k < c + sum_list (map nodeSize cs)"
  shows "\<exists>j off. findIndexFrom cs i (of_int c) (of_int k) = Inr (i + j, of_int off)
           \<and> (off = k \<or> (j < length cs \<and> off < k \<and> k < off + nodeSize (cs ! j)))"
  using assms
proof (induction cs arbitrary: i c)
  case Nil
  then show ?case by simp
next
  case (Cons x xs)
  have e: "(of_int c :: rat) + of_int (nodeSize x) = of_int (c + nodeSize x)" by simp
  consider "k = c + nodeSize x" | "k < c + nodeSize x" | "c + nodeSize x < k" by linarith
  then show ?case
  proof cases
    case 1
    then have "findIndexFrom (x # xs) i (of_int c) (of_int k) = Inr (i + 1, of_int k)"
      by (simp add: Let_def)
    then show ?thesis by blast
  next
    case 2
    then have "findIndexFrom (x # xs) i (of_int c) (of_int k) = Inr (i + 0, of_int c)"
      unfolding findIndexFrom.simps Let_def e by simp
    moreover have "0 < length (x # xs) \<and> c < k \<and> k < c + nodeSize ((x # xs) ! 0)"
      using 2 Cons.prems by simp
    ultimately show ?thesis by blast
  next
    case 3
    then have step: "findIndexFrom (x # xs) i (of_int c) (of_int k)
        = findIndexFrom xs (i + 1) (of_int (c + nodeSize x)) (of_int k)"
      unfolding findIndexFrom.simps Let_def e by simp
    have "k < (c + nodeSize x) + sum_list (map nodeSize xs)"
      using Cons.prems(2) by simp
    from Cons.IH[OF 3 this, of "i + 1"] obtain j off where
      r: "findIndexFrom xs (i + 1) (of_int (c + nodeSize x)) (of_int k) = Inr (i + 1 + j, of_int off)"
      and p: "off = k \<or> (j < length xs \<and> off < k \<and> k < off + nodeSize (xs ! j))"
      by blast
    have "findIndexFrom (x # xs) i (of_int c) (of_int k) = Inr (i + (j + 1), of_int off)"
      using step r by simp
    moreover have "off = k \<or> (j + 1 < length (x # xs) \<and> off < k
        \<and> k < off + nodeSize ((x # xs) ! (j + 1)))"
      using p by auto
    ultimately show ?thesis by blast
  qed
qed

lemma resolvePath_int:
  "0 \<le> k \<Longrightarrow> k \<le> contentSize node \<Longrightarrow> resolvePath node (of_int k) = Inr ()"
proof (induction node arbitrary: k)
  case (TextNode t)
  then show ?case by (simp add: resolvePath.simps[of "TextNode t"] findIndex_def)
next
  case (LeafNode n)
  then show ?case by (simp add: resolvePath.simps[of "LeafNode n"] findIndex_def)
next
  case (BranchNode n cs)
  let ?S = "sum_list (map nodeSize cs)"
  have kS: "k \<le> ?S" using BranchNode.prems by simp
  consider "k = 0" | "k = ?S" | "0 < k" "k < ?S" using BranchNode.prems(1) kS by linarith
  then show ?case
  proof cases
    case 1
    then show ?thesis by (simp add: resolvePath.simps[of "BranchNode n cs"] findIndex_def)
  next
    case 2
    then show ?thesis by (simp add: resolvePath.simps[of "BranchNode n cs"] findIndex_def)
  next
    case 3
    have fi: "findIndex cs (of_int k) = findIndexFrom cs 0 (of_int 0) (of_int k)"
      using 3 by (simp add: findIndex_def)
    from findIndexFrom_int[of 0 k cs 0] 3 obtain j off where
      r: "findIndexFrom cs 0 (of_int 0) (of_int k) = Inr (j, of_int off)"
      and p: "off = k \<or> (j < length cs \<and> off < k \<and> k < off + nodeSize (cs ! j))"
      by auto
    show ?thesis
    proof (cases "off = k")
      case True
      then show ?thesis
        using fi r by (simp add: resolvePath.simps[of "BranchNode n cs"])
    next
      case False
      then have j: "j < length cs" and lo: "off < k" and hi: "k < off + nodeSize (cs ! j)"
        using p by simp_all
      have ne: "(of_int k :: rat) - of_int off \<noteq> 0" using lo by simp
      have mem: "cs ! j \<in> set cs" using j by simp
      show ?thesis
      proof (cases "cs ! j")
        case (TextNode t)
        then show ?thesis
          using fi r ne j by (simp add: resolvePath.simps[of "BranchNode n cs"])
      next
        case (LeafNode m)
        then show ?thesis using lo hi by simp
      next
        case (BranchNode m ds)
        have "0 \<le> k - off - 1" and "k - off - 1 \<le> contentSize (cs ! j)"
          using lo hi BranchNode by simp_all
        then have "resolvePath (cs ! j) (of_int (k - off - 1)) = Inr ()"
          using BranchNode.IH[OF mem] by blast
        then have "resolvePath (BranchNode m ds) (of_int k - of_int off - 1) = Inr ()"
          using BranchNode by simp
        then show ?thesis
          using fi r ne j BranchNode by (simp add: resolvePath.simps[of "BranchNode n cs"])
      qed
    qed
  qed
qed

lemma resolve_int:
  assumes "0 \<le> k" and "k \<le> nodeSize (BranchNode n cs) - 2"
  shows "resolve (BranchNode n cs) (Finite (of_int k)) = Inr (of_int k)"
proof -
  have "k \<le> contentSize (BranchNode n cs)" using assms(2) by simp
  then have "resolvePath (BranchNode n cs) (of_int k) = Inr ()"
    using assms(1) by (rule resolvePath_int[rotated])
  then show ?thesis using assms by (simp add: resolve_def js_le_def)
qed

lemma clamp_int:
  assumes "0 \<le> M"
  shows "clamp (Finite 0) (Finite (of_int M)) (Finite (of_int k))
           = Finite (of_int (max 0 (min M k)))"
    and "clamp (Finite 0) (Finite (of_int M)) Infinity = Finite (of_int M)"
    and "clamp (Finite 0) (Finite (of_int M)) NegInfinity = Finite 0"
    and "clamp (Finite 0) (Finite (of_int M)) NaN = NaN"
  using assms by (auto simp: clamp_def max_def min_def)

lemma positionNumber_clamp:
  assumes "0 \<le> M" and "positionNumber v"
  shows "\<exists>k. clamp (Finite 0) (Finite (of_int M)) v = Finite (of_int k) \<and> 0 \<le> k \<and> k \<le> M"
proof (cases v)
  case (Finite p)
  then have "p = of_int \<lfloor>p\<rfloor>" using assms(2) by simp
  then have "clamp (Finite 0) (Finite (of_int M)) v = Finite (of_int (max 0 (min M \<lfloor>p\<rfloor>)))"
    using clamp_int(1)[OF assms(1), of "\<lfloor>p\<rfloor>"] Finite by simp
  moreover have "0 \<le> max 0 (min M \<lfloor>p\<rfloor>) \<and> max 0 (min M \<lfloor>p\<rfloor>) \<le> M"
    using assms(1) by simp
  ultimately show ?thesis by blast
next
  case Infinity
  then show ?thesis using clamp_int(2)[OF assms(1)] assms(1) by auto
next
  case NegInfinity
  have "clamp (Finite 0) (Finite (of_int M)) v = Finite (of_int 0)"
    using clamp_int(3)[OF assms(1)] NegInfinity by simp
  then show ?thesis using assms(1) by blast
next
  case NaN
  then show ?thesis using assms(2) by simp
qed

lemma near_clamped:
  assumes "positionNumber v"
  shows "\<exists>k. TextSelection_near (BranchNode n cs)
                 (clamp (Finite 0) (Finite (of_int (nodeSize (BranchNode n cs) - 2))) v)
               = Inr (NearSelection (BranchNode n cs) (of_int k))
             \<and> clamp (Finite 0) (Finite (of_int (nodeSize (BranchNode n cs) - 2))) v
               = Finite (of_int k)
             \<and> 0 \<le> k \<and> k \<le> nodeSize (BranchNode n cs) - 2"
proof -
  obtain k where c: "clamp (Finite 0) (Finite (of_int (nodeSize (BranchNode n cs) - 2))) v
        = Finite (of_int k)"
    and k: "0 \<le> k" "k \<le> nodeSize (BranchNode n cs) - 2"
    using positionNumber_clamp[OF contentSize_branch(2) assms, of n cs] by blast
  have "TextSelection_near (BranchNode n cs) (Finite (of_int k))
      = Inr (NearSelection (BranchNode n cs) (of_int k))"
    using resolve_int[OF k] by (simp add: TextSelection_near_def)
  then show ?thesis using c k by auto
qed

lemma getTextSelection_position:
  assumes "positionSelection sel"
  shows "\<exists>ts. getTextSelection sel (BranchNode n cs) = Inr ts
           \<and> selectionDoc ts = BranchNode n cs \<and> withinDocument ts"
proof (cases sel)
  case (PSelection s)
  then show ?thesis using assms by simp
next
  case PStart
  obtain k where "TextSelection_near (BranchNode n cs)
        (clamp (Finite 0) (Finite (of_int (nodeSize (BranchNode n cs) - 2))) (Finite 0))
      = Inr (NearSelection (BranchNode n cs) (of_int k))"
    and "0 \<le> k" "k \<le> nodeSize (BranchNode n cs) - 2"
    using near_clamped[of "Finite 0" n cs] by auto
  then show ?thesis using PStart by (simp add: getTextSelection_def Let_def)
next
  case PEnd
  have "positionNumber (Finite (of_int (nodeSize (BranchNode n cs) - 2)))" by simp
  from near_clamped[OF this, of n cs] obtain k where
    "TextSelection_near (BranchNode n cs)
        (clamp (Finite 0) (Finite (of_int (nodeSize (BranchNode n cs) - 2)))
           (Finite (of_int (nodeSize (BranchNode n cs) - 2))))
      = Inr (NearSelection (BranchNode n cs) (of_int k))"
    and "0 \<le> k" "k \<le> nodeSize (BranchNode n cs) - 2"
    by auto
  then show ?thesis using PEnd by (simp add: getTextSelection_def Let_def)
next
  case (PNumber v)
  then have "positionNumber v" using assms by simp
  from near_clamped[OF this, of n cs] obtain k where
    "TextSelection_near (BranchNode n cs)
        (clamp (Finite 0) (Finite (of_int (nodeSize (BranchNode n cs) - 2))) v)
      = Inr (NearSelection (BranchNode n cs) (of_int k))"
    and "0 \<le> k" "k \<le> nodeSize (BranchNode n cs) - 2"
    by auto
  then show ?thesis using PNumber by (simp add: getTextSelection_def Let_def)
next
  case (PFromTo f t)
  then have pf: "positionNumber f" and pt: "positionNumber t" using assms by simp_all
  obtain a where ca: "clamp (Finite 0) (Finite (of_int (nodeSize (BranchNode n cs) - 2))) f
        = Finite (of_int a)"
    and a: "0 \<le> a" "a \<le> nodeSize (BranchNode n cs) - 2"
    using positionNumber_clamp[OF contentSize_branch(2) pf, of n cs] by blast
  obtain h where ch: "clamp (Finite 0) (Finite (of_int (nodeSize (BranchNode n cs) - 2))) t
        = Finite (of_int h)"
    and h: "0 \<le> h" "h \<le> nodeSize (BranchNode n cs) - 2"
    using positionNumber_clamp[OF contentSize_branch(2) pt, of n cs] by blast
  have "getTextSelection sel (BranchNode n cs)
      = Inr (TextSelection (BranchNode n cs) (of_int a) (of_int h))"
    using PFromTo ca ch resolve_int[OF a] resolve_int[OF h]
    by (simp add: getTextSelection_def Let_def TextSelection_create_def)
  then show ?thesis using a h by simp
qed

lemma getTextSelection_integers:
  fixes n cs
  defines "d \<equiv> BranchNode n cs"
  shows "getTextSelection PStart d = Inr (NearSelection d 0)"
    and "getTextSelection PEnd d = Inr (NearSelection d (of_int (nodeSize d - 2)))"
    and "getTextSelection (PNumber (Finite (of_int k))) d
           = Inr (NearSelection d (of_int (max 0 (min (nodeSize d - 2) k))))"
    and "getTextSelection (PNumber Infinity) d = Inr (NearSelection d (of_int (nodeSize d - 2)))"
    and "getTextSelection (PNumber NegInfinity) d = Inr (NearSelection d 0)"
    and "getTextSelection (PFromTo (Finite (of_int f)) (Finite (of_int t))) d
           = Inr (TextSelection d (of_int (max 0 (min (nodeSize d - 2) f)))
                   (of_int (max 0 (min (nodeSize d - 2) t))))"
proof -
  let ?M = "nodeSize d - 2"
  have M: "0 \<le> ?M" unfolding d_def by (rule contentSize_branch(2))
  note c = clamp_int[OF M]
  have r: "\<And>j. resolve d (Finite (of_int (max 0 (min ?M j)))) = Inr (of_int (max 0 (min ?M j)))"
    unfolding d_def using M by (intro resolve_int) (simp_all add: d_def)
  have r0: "resolve d (Finite 0) = Inr 0"
    using r[of 0] M by simp
  have rM: "resolve d (Finite (of_int ?M)) = Inr (of_int ?M)"
    using r[of ?M] M by simp
  have c0: "clamp (Finite 0) (Finite (of_int ?M)) (Finite 0) = Finite 0"
    using c(1)[of 0] M by simp
  have cM: "clamp (Finite 0) (Finite (of_int ?M)) (Finite (of_int ?M)) = Finite (of_int ?M)"
    using c(1)[of ?M] M by simp
  have g: "\<And>v. getTextSelection (PNumber v) d
        = TextSelection_near d (clamp (Finite 0) (Finite (of_int ?M)) v)"
    "getTextSelection PStart d
        = TextSelection_near d (clamp (Finite 0) (Finite (of_int ?M)) (Finite 0))"
    "getTextSelection PEnd d
        = TextSelection_near d (clamp (Finite 0) (Finite (of_int ?M)) (Finite (of_int ?M)))"
    "\<And>a b. getTextSelection (PFromTo a b) d
        = TextSelection_create d (clamp (Finite 0) (Finite (of_int ?M)) a)
            (clamp (Finite 0) (Finite (of_int ?M)) b)"
    by (simp_all only: getTextSelection_def Let_def primitive_selection.case)
  show "getTextSelection PStart d = Inr (NearSelection d 0)"
    unfolding g c0 TextSelection_near_def r0 by simp
  show "getTextSelection PEnd d = Inr (NearSelection d (of_int (nodeSize d - 2)))"
    unfolding g cM TextSelection_near_def rM by simp
  show "getTextSelection (PNumber (Finite (of_int k))) d
           = Inr (NearSelection d (of_int (max 0 (min (nodeSize d - 2) k))))"
    unfolding g c(1) TextSelection_near_def r by simp
  show "getTextSelection (PNumber Infinity) d = Inr (NearSelection d (of_int (nodeSize d - 2)))"
    unfolding g c(2) TextSelection_near_def rM by simp
  show "getTextSelection (PNumber NegInfinity) d = Inr (NearSelection d 0)"
    unfolding g c(3) TextSelection_near_def r0 by simp
  show "getTextSelection (PFromTo (Finite (of_int f)) (Finite (of_int t))) d
           = Inr (TextSelection d (of_int (max 0 (min (nodeSize d - 2) f)))
                   (of_int (max 0 (min (nodeSize d - 2) t))))"
    unfolding g c(1) TextSelection_create_def r by simp
qed

text \<open>
  A fractional number is no position either: one half passes the clamp, and the walk of
  \<open>doc.resolve\<close> leaves the document node with a negative offset.
\<close>

lemma getTextSelection_fraction:
  "getTextSelection (PNumber (Finite (1 / 2))) exampleDoc = Inl RangeError"
  by (simp add: getTextSelection_def Let_def TextSelection_near_def clamp_def resolve_def
      js_le_def exampleDoc_def resolvePath.simps findIndex_def)

text \<open>
  C10, as amended. For every document, a node with content, and every primitive selection
  given as \<open>'start'\<close>, as \<open>'end'\<close>, as a number that is an integer or an infinity, or
  as a from-to pair of such numbers, \<open>getTextSelection\<close> never throws: every position
  is clamped into the range from 0 to \<open>doc.nodeSize - 2\<close> before it is resolved, and the
  selection returned points into the document and lies within it. For integers the
  clamped position is the integer itself brought into that range; an infinity becomes
  the nearer end of the range.
\<close>

theorem getTextSelection_within_document:
  "(positionSelection sel \<longrightarrow>
      (\<exists>ts. getTextSelection sel (BranchNode n cs) = Inr ts
            \<and> selectionDoc ts = BranchNode n cs \<and> withinDocument ts))
   \<and> getTextSelection PStart (BranchNode n cs) = Inr (NearSelection (BranchNode n cs) 0)
   \<and> getTextSelection PEnd (BranchNode n cs)
       = Inr (NearSelection (BranchNode n cs) (of_int (nodeSize (BranchNode n cs) - 2)))
   \<and> getTextSelection (PNumber (Finite (of_int k))) (BranchNode n cs)
       = Inr (NearSelection (BranchNode n cs)
               (of_int (max 0 (min (nodeSize (BranchNode n cs) - 2) k))))
   \<and> getTextSelection (PNumber Infinity) (BranchNode n cs)
       = Inr (NearSelection (BranchNode n cs) (of_int (nodeSize (BranchNode n cs) - 2)))
   \<and> getTextSelection (PNumber NegInfinity) (BranchNode n cs)
       = Inr (NearSelection (BranchNode n cs) 0)
   \<and> getTextSelection (PFromTo (Finite (of_int f)) (Finite (of_int t))) (BranchNode n cs)
       = Inr (TextSelection (BranchNode n cs)
               (of_int (max 0 (min (nodeSize (BranchNode n cs) - 2) f)))
               (of_int (max 0 (min (nodeSize (BranchNode n cs) - 2) t))))"
  using getTextSelection_position[of sel n cs]
    getTextSelection_integers[where n = n and cs = cs]
  by blast

theorem getTextSelection_within_document_witness:
  "positionSelection (PFromTo NegInfinity (Finite 3))
   \<and> (\<exists>ts. getTextSelection (PFromTo NegInfinity (Finite 3)) exampleDoc = Inr ts
          \<and> selectionDoc ts = exampleDoc \<and> withinDocument ts)
   \<and> getTextSelection (PNumber (Finite 100)) exampleDoc = Inr (NearSelection exampleDoc 7)
   \<and> getTextSelection (PFromTo (Finite (- 5)) (Finite 3)) exampleDoc
       = Inr (TextSelection exampleDoc 0 3)"
proof -
  have 1: "exampleDoc = BranchNode ''doc'' [BranchNode ''paragraph'' [TextNode ''hello'']]"
    by (simp add: exampleDoc_def)
  have 2: "positionSelection (PFromTo NegInfinity (Finite 3))" by simp
  have 3: "nodeSize exampleDoc - 2 = 7" by (simp add: exampleDoc_def)
  note t = getTextSelection_within_document[of "PFromTo NegInfinity (Finite 3)" "''doc''"
      "[BranchNode ''paragraph'' [TextNode ''hello'']]" 100 "- 5" 3, folded 1]
  have 4: "\<exists>ts. getTextSelection (PFromTo NegInfinity (Finite 3)) exampleDoc = Inr ts
          \<and> selectionDoc ts = exampleDoc \<and> withinDocument ts"
    using 2 t by blast
  have 5: "getTextSelection (PNumber (Finite 100)) exampleDoc = Inr (NearSelection exampleDoc 7)"
    using t by (simp add: 3)
  have 6: "getTextSelection (PFromTo (Finite (- 5)) (Finite 3)) exampleDoc
       = Inr (TextSelection exampleDoc 0 3)"
    using t by (simp add: 3)
  show ?thesis using 2 4 5 6 by blast
qed

text \<open>
  C10, as stated, fails for the number NaN, alone or in a from-to pair: the clamp returns
  NaN as it is, and \<open>doc.resolve\<close> throws a RangeError.
\<close>

theorem getTextSelection_NaN_counterexample:
  "getTextSelection (PNumber NaN) exampleDoc = Inl RangeError
   \<and> getTextSelection (PFromTo NaN (Finite 3)) exampleDoc = Inl RangeError"
  by (simp add: getTextSelection_def Let_def TextSelection_near_def TextSelection_create_def
      clamp_def resolve_def js_le_def)

text \<open>
  C8. When the content is already a node, \<open>createDocumentNode\<close> returns that node
  itself, and the document of every state \<open>createState\<close> returns for it is that node.
  Without a selection \<open>createState\<close> returns the fresh state of the node; for a
  document (a node with content) and a selection given as \<open>'start'\<close>, \<open>'end'\<close>, a
  number that is an integer or an infinity, or a from-to pair of such numbers, it always
  returns a state.
\<close>

theorem createState_document_roundtrip:
  "createDocumentNode (NodeContent d) sch sh oe = Inr d
   \<and> createState sch ps (NodeContent d) sh oe None = Inr (EditorState_create d ps)
   \<and> doc (EditorState_create d ps) = d
   \<and> (createState sch ps (NodeContent d) sh oe sel = Inr st \<longrightarrow> doc st = d)
   \<and> ((\<forall>p. sel = Some p \<longrightarrow> positionSelection p) \<longrightarrow>
        (\<exists>st'. createState sch ps (NodeContent (BranchNode n cs)) sh oe sel = Inr st'
              \<and> doc st' = BranchNode n cs))"
proof (intro conjI impI)
  show c: "createDocumentNode (NodeContent d) sch sh oe = Inr d"
    by (simp add: createDocumentNode_def Let_def)
  show "createState sch ps (NodeContent d) sh oe None = Inr (EditorState_create d ps)"
    by (simp add: createState_def c)
  show "doc (EditorState_create d ps) = d"
    by (simp add: EditorState_create_def)
  show "doc st = d" if "createState sch ps (NodeContent d) sh oe sel = Inr st"
    using that
    by (auto simp: createState_def c Let_def EditorState_create_def setSelection_def
        split: option.splits if_splits sum.splits)
next
  assume a: "\<forall>p. sel = Some p \<longrightarrow> positionSelection p"
  let ?d = "BranchNode n cs"
  have c: "createDocumentNode (NodeContent ?d) sch sh oe = Inr ?d"
    by (simp add: createDocumentNode_def Let_def)
  show "\<exists>st'. createState sch ps (NodeContent ?d) sh oe sel = Inr st' \<and> doc st' = ?d"
  proof (cases sel)
    case None
    then show ?thesis by (simp add: createState_def c EditorState_create_def)
  next
    case (Some p)
    then have "positionSelection p" using a by simp
    then obtain ts where ts: "getTextSelection p ?d = Inr ts" "selectionDoc ts = ?d"
      using getTextSelection_position[of p n cs] by blast
    show ?thesis
      using Some ts
      by (simp add: createState_def c Let_def EditorState_create_def setSelection_def)
  qed
qed

theorem createState_document_roundtrip_witness:
  "createState exampleSchema [historyPlugin] (NodeContent exampleDoc) None None
      (Some (PFromTo (Finite 3) (Finite 100)))
     = Inr \<lparr> doc = exampleDoc, selection = TextSelection exampleDoc 3 7, plugins = [historyPlugin] \<rparr>
   \<and> doc \<lparr> doc = exampleDoc, selection = TextSelection exampleDoc 3 7, plugins = [historyPlugin] \<rparr>
     = exampleDoc
   \<and> (\<exists>st'. createState exampleSchema [historyPlugin] (NodeContent exampleDoc) None None (Some PEnd)
                = Inr st' \<and> doc st' = exampleDoc)"
proof -
  have 0: "exampleDoc = BranchNode ''doc'' [BranchNode ''paragraph'' [TextNode ''hello'']]"
    by (simp add: exampleDoc_def)
  have g: "getTextSelection (PFromTo (Finite 3) (Finite 100)) exampleDoc
      = Inr (TextSelection exampleDoc 3 7)"
    using getTextSelection_integers(6)[where n = "''doc''"
        and cs = "[BranchNode ''paragraph'' [TextNode ''hello'']]" and f = 3 and t = 100]
    unfolding 0[symmetric] by (simp add: exampleDoc_def)
  have 1: "createState exampleSchema [historyPlugin] (NodeContent exampleDoc) None None
      (Some (PFromTo (Finite 3) (Finite 100)))
     = Inr \<lparr> doc = exampleDoc, selection = TextSelection exampleDoc 3 7, plugins = [historyPlugin] \<rparr>"
    by (simp add: createState_def createDocumentNode_def Let_def EditorState_create_def g
        setSelection_def)
  have 2: "\<forall>p. Some PEnd = Some p \<longrightarrow> positionSelection p" by simp
  have 4: "doc \<lparr> doc = exampleDoc, selection = TextSelection exampleDoc 3 7,
                  plugins = [historyPlugin] \<rparr> = exampleDoc"
    using 1 createState_document_roundtrip[of exampleDoc exampleSchema None None "[historyPlugin]"
        "Some (PFromTo (Finite 3) (Finite 100))"
        "\<lparr> doc = exampleDoc, selection = TextSelection exampleDoc 3 7, plugins = [historyPlugin] \<rparr>"]
    by blast
  have 5: "\<exists>st'. createState exampleSchema [historyPlugin] (NodeContent exampleDoc) None None
                 (Some PEnd) = Inr st' \<and> doc st' = exampleDoc"
    using 2 createState_document_roundtrip[of exampleDoc exampleSchema None None "[historyPlugin]"
        "Some PEnd" exampleState "''doc''" "[BranchNode ''paragraph'' [TextNode ''hello'']]"]
    unfolding 0 by blast
  show ?thesis using 1 4 5 by blast
qed

lemma createDocumentNode_given_onError:
  "createDocumentNode OtherContent sch sh (Some given) = nodeFromJSON sch EMPTY_PARAGRAPH_NODE"
  "createDocumentNode (StringContent str) sch None (Some given)
     = nodeFromJSON sch EMPTY_PARAGRAPH_NODE"
  by (simp_all add: createDocumentNode_def createDocumentErrorHandler_def createFallback_def
      Let_def)

text \<open>
  C2 fails on the code. The content is a string and there is no string handler; the caller
  gives the document \<open>otherDoc\<close> as fallback, as a value or through a function.
  \<open>createDocumentNode\<close> returns the document with one empty paragraph instead:
  its local \<open>onError\<close> never is the caller's. The error handler itself, given the
  caller's fallback, would return it.
\<close>

theorem createDocumentNode_ignores_onError:
  "createDocumentNode (StringContent ''hello'') exampleSchema None
     (Some (FallbackValue (FallbackNode otherDoc)))
     = Inr (BranchNode ''doc'' [BranchNode ''paragraph'' []])
   \<and> createDocumentNode (StringContent ''hello'') exampleSchema None
     (Some (FallbackFunction (\<lambda>e. FallbackNode otherDoc)))
     = Inr (BranchNode ''doc'' [BranchNode ''paragraph'' []])
   \<and> createDocumentErrorHandler (FallbackValue (FallbackNode otherDoc)) exampleSchema
       (Some UnrecognizedContent) = Inr otherDoc
   \<and> otherDoc \<noteq> BranchNode ''doc'' [BranchNode ''paragraph'' []]"
  by (simp add: createDocumentNode_def createDocumentErrorHandler_def createFallback_def
      exampleSchema_def EMPTY_PARAGRAPH_NODE_def otherDoc_def Let_def)

text \<open>
  C9 fails on the code. A manager is created and destroyed, so its phase is Destroy; the
  first state update delivered afterwards sets the phase back to Runtime, through
  \<open>onStateUpdate\<close> and, with a view attached, through \<open>updateState\<close>. The
  manager then no longer counts as destroyed and counts as mounted.
\<close>

theorem phase_decreases_after_destroy:
  "phase (snd (destroy exampleManager)) = Destroy
   \<and> phase (snd (onStateUpdate exampleState otherState (snd (destroy exampleManager)))) = Runtime
   \<and> phase (snd (updateState otherState
                    (snd (destroy (snd (addView exampleView exampleManager)))))) = Runtime
   \<and> phaseValue Runtime < phaseValue Destroy
   \<and> \<not> destroyed (snd (onStateUpdate exampleState otherState (snd (destroy exampleManager))))
   \<and> mounted (snd (onStateUpdate exampleState otherState (snd (destroy exampleManager))))"
proof -
  have d: "phase (snd (destroy exampleManager)) = Destroy"
    and f: "firstStateUpdate (snd (destroy exampleManager)) = True"
    by (simp_all add: destroy_def Let_def viewDestroy_def exampleManager_def
        pluginStateDestroys_def)
  have u: "phase (snd (onStateUpdate exampleState otherState (snd (destroy exampleManager))))
      = Runtime"
    using f by (simp add: onStateUpdate_fields)
  let ?m = "snd (destroy (snd (addView exampleView exampleManager)))"
  have g: "getState ?m = Inr exampleState" and fm: "firstStateUpdate ?m = True"
    by (simp_all add: getState_def destroy_def Let_def viewDestroy_def addView_def
        exampleManager_def exampleView_def pluginStateDestroys_def)
  have "phase (snd (updateState otherState ?m)) = Runtime"
    using g fm by (simp add: updateState_def onStateUpdate_fields)
  then show ?thesis using d u by (simp add: destroyed_def mounted_def)
qed

end
